theory Spec2Isabelle
  imports Complex_Main
begin

section \<open>Data model of the time-series loader\<close>

text \<open>
  The loader of \<^verbatim>\<open>nixtla/data/tsloader.py\<close> is embedded function by function.
  Every exception the Python can raise is a value of \<open>error\<close>; a method that can raise
  returns \<open>error + 'a\<close> with \<open>Inl\<close> for the exception.  The two \<^verbatim>\<open>raise Exception(...)\<close>
  statements keep the fixed part of their message.
\<close>

datatype error =
    Exception string
  | AssertionError
  | ZeroDivisionError
  | ValueError
  | IndexError
  | AttributeError
  | RuntimeError

text \<open>
  Tensor entries are numbers.  A series is a list of channels, a channel is the list of its
  values along the time axis; the series tensor is the list of the series.  Sizes and
  counts (the docstring's "size of", "number of") are natural numbers, series indices
  handed in by a caller are Python integers (numpy lets them be negative).
\<close>

type_synonym val = real
type_synonym channel = "val list"
type_synonym tensor = "val list list list"

text \<open>
  The series store (class \<^verbatim>\<open>TimeSeriesDataset\<close>) is an external collaborator.  The
  loader reads the attributes below; \<open>n_channels\<close> is also the second dimension of the
  shape of \<open>ts_tensor\<close>.  The method \<^verbatim>\<open>get_filtered_ts_tensor\<close> is not part of the
  loader: it is a field of the store, an arbitrary function of its three arguments
  (\<open>output_size\<close>, \<open>window_sampling_limit\<close>, \<open>ts_idxs\<close>) that returns the filtered tensor.
\<close>

record TimeSeriesDataset =
  t_cols :: "string list"
  f_idxs :: "nat list"
  n_series :: nat
  n_channels :: nat
  ts_tensor :: tensor
  s_matrix :: "val list list"
  get_filtered_ts_tensor :: "nat \<Rightarrow> nat \<Rightarrow> int list option \<Rightarrow> tensor"

record TimeSeriesLoader =
  model :: string
  window_sampling_limit :: nat
  input_size :: nat
  output_size :: nat
  batch_size :: nat
  complete_inputs :: bool
  idx_to_sample_freq :: nat
  ts_dataset :: TimeSeriesDataset
  t_cols :: "string list"
  f_idxs :: "nat list"
  n_series_per_batch :: nat
  len_sample_chunks :: nat
  shuffle :: bool
  verbose :: bool
  windows_size :: nat
  padding :: "nat \<times> nat"
  sampleable_ts_idxs :: "nat list"
  n_sampleable_ts :: nat
  n_batches :: nat

record batch =
  S :: "val list list"
  Y :: "val list list"
  X :: "val list list list"
  available_mask :: "val list list"
  sample_mask :: "val list list"
  idxs :: "int list"

section \<open>Python and array primitives\<close>

text \<open>\<^verbatim>\<open>list.index(x)\<close>: the first position of \<open>x\<close>, ValueError when it is absent.\<close>

fun list_index :: "'a list \<Rightarrow> 'a \<Rightarrow> error + nat" where
  "list_index [] x = Inl ValueError"
| "list_index (y # ys) x =
     (if y = x then Inr 0
      else (case list_index ys x of Inl e \<Rightarrow> Inl e | Inr i \<Rightarrow> Inr (Suc i)))"

text \<open>
  \<^verbatim>\<open>xs[a:b]\<close> for non-negative \<open>a\<close> and \<open>b\<close> (both are clamped to the length),
  \<^verbatim>\<open>xs[-n:]\<close> and \<^verbatim>\<open>xs[:-n]\<close> for a non-negative \<open>n\<close>.  In Python \<open>-0\<close> is \<open>0\<close>:
  \<^verbatim>\<open>xs[-0:]\<close> is the whole list and \<^verbatim>\<open>xs[:-0]\<close> is empty.
\<close>

definition py_slice :: "'a list \<Rightarrow> nat \<Rightarrow> nat \<Rightarrow> 'a list" where
  "py_slice xs a b = take (b - a) (drop a xs)"

definition slice_from_neg :: "'a list \<Rightarrow> nat \<Rightarrow> 'a list" where
  "slice_from_neg xs n = (if n = 0 then xs else drop (length xs - n) xs)"

definition slice_to_neg :: "'a list \<Rightarrow> nat \<Rightarrow> 'a list" where
  "slice_to_neg xs n = (if n = 0 then [] else take (length xs - n) xs)"

text \<open>
  \<^verbatim>\<open>a[:, c]\<close> on an array whose second dimension has \<open>nc\<close> entries: IndexError when
  \<open>c\<close> is out of range, else entry \<open>c\<close> of every row.
\<close>

definition select_channel :: "nat \<Rightarrow> 'a list list \<Rightarrow> nat \<Rightarrow> error + 'a list" where
  "select_channel nc a c = (if c < nc then Inr (map (\<lambda>s. s ! c) a) else Inl IndexError)"

text \<open>
  \<^verbatim>\<open>a[idx]\<close> with an integer index array (numpy or torch): an entry \<open>i\<close> with
  \<open>-n \<le> i < n\<close> selects row \<open>i\<close>, counted from the end when negative; any other entry
  raises IndexError.
\<close>

definition in_bounds :: "nat \<Rightarrow> int \<Rightarrow> bool" where
  "in_bounds n i = (- int n \<le> i \<and> i < int n)"

definition wrap_index :: "nat \<Rightarrow> int \<Rightarrow> nat" where
  "wrap_index n i = nat (if i < 0 then int n + i else i)"

definition take_rows :: "'a list \<Rightarrow> int list \<Rightarrow> error + 'a list" where
  "take_rows a idx =
     (if list_all (in_bounds (length a)) idx
      then Inr (map (\<lambda>i. a ! wrap_index (length a) i) idx)
      else Inl IndexError)"

text \<open>\<^verbatim>\<open>np.repeat(a, k, axis=0)\<close>: every row \<open>k\<close> times in a row, in order.\<close>

definition repeat_rows :: "'a list \<Rightarrow> nat \<Rightarrow> 'a list" where
  "repeat_rows a k = concat (map (replicate k) a)"

text \<open>\<^verbatim>\<open>np.argwhere(mask).reshape(1, -1)[0]\<close> and \<^verbatim>\<open>t.nonzero(mask).flatten()\<close>: the
  positions where the condition holds, increasing.\<close>

definition argwhere :: "bool list \<Rightarrow> nat list" where
  "argwhere cond = filter (\<lambda>i. cond ! i) [0..<length cond]"

section \<open>Construction\<close>

text \<open>\<^verbatim>\<open>_define_attributes_by_model\<close>\<close>

definition define_attributes_by_model :: "TimeSeriesLoader \<Rightarrow> error + TimeSeriesLoader" where
  "define_attributes_by_model self =
     (if model self \<in> set [''nbeats''] then
        Inr (self\<lparr>windows_size := input_size self + output_size self,
                  padding := (input_size self, output_size self)\<rparr>)
      else if model self \<in> set [''esrnn''] then
        Inr (self\<lparr>windows_size := len_sample_chunks self, padding := (0, 0)\<rparr>)
      else Inl (Exception ''There is no batch strategy for''))"

text \<open>\<^verbatim>\<open>_define_sampleable_ts_idxs\<close>\<close>

definition define_sampleable_ts_idxs :: "TimeSeriesLoader \<Rightarrow> error + TimeSeriesLoader" where
  "define_sampleable_ts_idxs self =
     (case list_index (TimeSeriesLoader.t_cols self) ''sample_mask'' of
        Inl e \<Rightarrow> Inl e
      | Inr c \<Rightarrow>
         (case select_channel (n_channels (ts_dataset self)) (ts_tensor (ts_dataset self)) c of
            Inl e \<Rightarrow> Inl e
          | Inr masks \<Rightarrow>
             (let sum_sample_mask = map sum_list masks;
                  min_mask = (if complete_inputs self then windows_size self
                              else output_size self);
                  found = argwhere (map (\<lambda>s. s > real min_mask) sum_sample_mask)
              in Inr (self\<lparr>sampleable_ts_idxs := found,
                           n_sampleable_ts := length found\<rparr>))))"

text \<open>
  \<^verbatim>\<open>__init__\<close>.  The attributes set later by the two methods above hold placeholders
  until then.  \<^verbatim>\<open>batch_size % n_series_per_batch\<close> raises ZeroDivisionError on a zero
  divisor, before the assertion compares anything; \<^verbatim>\<open>int(np.ceil(a / b))\<close> is the
  ceiling of the quotient.
\<close>

definition init ::
  "TimeSeriesDataset \<Rightarrow> string \<Rightarrow> nat \<Rightarrow> nat \<Rightarrow> nat \<Rightarrow> nat \<Rightarrow> nat \<Rightarrow> bool \<Rightarrow> bool \<Rightarrow>
   nat option \<Rightarrow> nat option \<Rightarrow> bool \<Rightarrow> error + TimeSeriesLoader" where
  "init ds mdl wsl isz osz freq bsz ci shf lsc nspb vrb =
     (let nspb' = (case nspb of Some n \<Rightarrow> n | None \<Rightarrow> min bsz (n_series ds)) in
      if (case lsc of Some l \<Rightarrow> l < isz + osz | None \<Rightarrow> False)
        then Inl (Exception ''Insufficient len of sample chunks'')
      else
       (let lsc' = (case lsc of Some l \<Rightarrow> l | None \<Rightarrow> isz + osz);
            self = \<lparr>model = mdl, window_sampling_limit = wsl, input_size = isz,
                    output_size = osz, batch_size = bsz, complete_inputs = ci,
                    idx_to_sample_freq = freq, ts_dataset = ds,
                    t_cols = TimeSeriesDataset.t_cols ds,
                    f_idxs = TimeSeriesDataset.f_idxs ds,
                    n_series_per_batch = nspb', len_sample_chunks = lsc',
                    shuffle = shf, verbose = vrb, windows_size = 0, padding = (0, 0),
                    sampleable_ts_idxs = [], n_sampleable_ts = 0, n_batches = 0\<rparr>
        in if nspb' = 0 then Inl ZeroDivisionError
           else if bsz mod nspb' \<noteq> 0 then Inl AssertionError
           else if \<not> nspb' \<le> n_series ds then Inl AssertionError
           else (case define_attributes_by_model self of
                   Inl e \<Rightarrow> Inl e
                 | Inr self1 \<Rightarrow>
                    (case define_sampleable_ts_idxs self1 of
                       Inl e \<Rightarrow> Inl e
                     | Inr self2 \<Rightarrow>
                        Inr (self2\<lparr>n_batches :=
                               nat \<lceil>real (n_sampleable_ts self2) /
                                    real (n_series_per_batch self2)\<rceil>\<rparr>)))))"

section \<open>The windowing engine\<close>

text \<open>
  \<^verbatim>\<open>ConstantPad1d(padding, value=0)\<close> pads the last (time) axis of every channel with
  zeros, \<open>fst\<close> on the left and \<open>snd\<close> on the right.
\<close>

definition constant_pad :: "nat \<times> nat \<Rightarrow> tensor \<Rightarrow> tensor" where
  "constant_pad p a = map (map (\<lambda>c. replicate (fst p) 0 @ c @ replicate (snd p) 0)) a"

text \<open>
  \<^verbatim>\<open>tensor.unfold(dimension=-1, size, step)\<close>: along the time axis, the slices of length
  \<open>sz\<close> that start at \<open>0, step, 2 * step, ...\<close> and fit; torch raises a RuntimeError for
  a step of zero and for a size beyond the length of the axis.
\<close>

definition windows_of :: "nat \<Rightarrow> nat \<Rightarrow> 'a list \<Rightarrow> 'a list list" where
  "windows_of sz step xs =
     map (\<lambda>j. take sz (drop (j * step) xs)) [0..<(length xs - sz) div step + 1]"

definition unfold_last :: "nat \<Rightarrow> nat \<Rightarrow> tensor \<Rightarrow> error + val list list list list" where
  "unfold_last sz step a =
     (if step = 0 \<or> list_ex (list_ex (\<lambda>c. length c < sz)) a then Inl RuntimeError
      else Inr (map (map (windows_of sz step)) a))"

text \<open>
  \<^verbatim>\<open>windows.permute(0, 2, 1, 3)\<close> swaps the channel axis and the window axis of every
  series.  \<^verbatim>\<open>windows.reshape(-1, n_channels, windows_size)\<close> reads the rows (each of
  \<open>windows_size\<close> values) in order and groups them \<open>n_channels\<close> at a time; torch raises
  when a named dimension is zero or the rows do not divide evenly.
\<close>

definition permute_0213 :: "'a list list list list \<Rightarrow> 'a list list list list" where
  "permute_0213 u = map transpose u"

definition chunks :: "nat \<Rightarrow> 'a list \<Rightarrow> 'a list list" where
  "chunks n xs = map (\<lambda>i. take n (drop (i * n) xs)) [0..<length xs div n]"

definition reshape_windows ::
  "nat \<Rightarrow> nat \<Rightarrow> 'a list list list list \<Rightarrow> error + 'a list list list" where
  "reshape_windows nc w p =
     (let rows = concat (concat p)
      in if nc = 0 \<or> w = 0 \<or> length rows mod nc \<noteq> 0 then Inl RuntimeError
         else Inr (chunks nc rows))"

text \<open>
  \<^verbatim>\<open>_create_windows_tensor\<close>.  With \<open>index = None\<close>, \<^verbatim>\<open>s_matrix[None]\<close> only adds an
  axis and \<^verbatim>\<open>n_ts\<close> is the store's series count; the quotient \<^verbatim>\<open>len(windows) / n_ts\<close>
  raises ZeroDivisionError for \<open>n_ts = 0\<close>, and \<^verbatim>\<open>index.repeat\<close> is then an attribute
  lookup on \<open>None\<close>.  With an index array, \<^verbatim>\<open>windows_per_serie\<close> is a float that numpy
  casts to an integer number of repeats: the floor of the quotient.
\<close>

definition create_windows_tensor ::
  "TimeSeriesLoader \<Rightarrow> int list option \<Rightarrow>
   error + (val list list list \<times> val list list \<times> int list)" where
  "create_windows_tensor self index =
     (let ds = ts_dataset self;
          tensor = get_filtered_ts_tensor ds (output_size self) (window_sampling_limit self) index;
          tensor = constant_pad (padding self) tensor
      in case unfold_last (windows_size self) (idx_to_sample_freq self) tensor of
           Inl e \<Rightarrow> Inl e
         | Inr u \<Rightarrow>
            (case reshape_windows (n_channels ds) (windows_size self) (permute_0213 u) of
               Inl e \<Rightarrow> Inl e
             | Inr windows \<Rightarrow>
                (case index of
                   None \<Rightarrow>
                     (if n_series ds = 0 then Inl ZeroDivisionError else Inl AttributeError)
                 | Some idx \<Rightarrow>
                     (case take_rows (s_matrix ds) idx of
                        Inl e \<Rightarrow> Inl e
                      | Inr s_mat \<Rightarrow>
                         (let n_ts = length idx
                          in if n_ts = 0 then Inl ZeroDivisionError
                             else (let windows_per_serie = length windows div n_ts
                                   in Inr (windows,
                                           repeat_rows s_mat windows_per_serie,
                                           repeat_rows idx windows_per_serie)))))))"

section \<open>The window-level eligibility check\<close>

text \<open>
  \<^verbatim>\<open>_get_sampleable_windows_idxs\<close>, in two steps: \<open>sampling_idx\<close> is the index array before
  the assertion, \<open>get_sampleable_windows_idxs\<close> adds the assertion that it is not empty.
  A condition is the 0/1 vector \<^verbatim>\<open>(sum == size) * 1\<close>.
\<close>

definition sampling_idx :: "TimeSeriesLoader \<Rightarrow> val list list list \<Rightarrow> error + nat list" where
  "sampling_idx self ts_windows_flatten =
     (let nc = n_channels (ts_dataset self) in
      case list_index (TimeSeriesLoader.t_cols self) ''sample_mask'' of
        Inl e \<Rightarrow> Inl e
      | Inr sm \<Rightarrow>
         (case select_channel nc ts_windows_flatten sm of
            Inl e \<Rightarrow> Inl e
          | Inr smc \<Rightarrow>
             (let sample_condition =
                    map (\<lambda>c. (of_bool (sum_list (slice_from_neg c (output_size self))
                                         = real (output_size self)) * 1 :: int)) smc
              in if complete_inputs self then
                   (case list_index (TimeSeriesLoader.t_cols self) ''available_mask'' of
                      Inl e \<Rightarrow> Inl e
                    | Inr am \<Rightarrow>
                       (case select_channel nc ts_windows_flatten am of
                          Inl e \<Rightarrow> Inl e
                        | Inr amc \<Rightarrow>
                           (let available_condition =
                                  map (\<lambda>c. (of_bool (sum_list (slice_to_neg c (output_size self))
                                               = of_int (int (windows_size self)
                                                         - int (output_size self))) * 1 :: int))
                                      amc
                            in Inr (argwhere (map (\<lambda>v. v > 0)
                                     (map2 (*) available_condition sample_condition))))))
                 else Inr (argwhere (map (\<lambda>v. v \<noteq> 0) sample_condition)))))"

definition get_sampleable_windows_idxs ::
  "TimeSeriesLoader \<Rightarrow> val list list list \<Rightarrow> error + nat list" where
  "get_sampleable_windows_idxs self ts_windows_flatten =
     (case sampling_idx self ts_windows_flatten of
        Inl e \<Rightarrow> Inl e
      | Inr idx \<Rightarrow> if length idx > 0 then Inr idx else Inl AssertionError)"

section \<open>The random source\<close>

text \<open>
  numpy's global generator is modelled by its state: the sequence of raw numbers it will
  produce next.  A draw from \<open>n\<close> alternatives reduces a raw number modulo \<open>n\<close>; drawing
  \<open>k\<close> numbers advances the state by \<open>k\<close>.  Seeding the generator is choosing a state.
  \<^verbatim>\<open>np.random.choice(a, size, replace=True)\<close> raises ValueError for an empty \<open>a\<close> unless
  no sample is taken; with \<^verbatim>\<open>replace=False\<close> it also raises when the sample is larger
  than \<open>a\<close>, and draws without putting back.
\<close>

type_synonym rng = "nat \<Rightarrow> nat"

definition advance :: "nat \<Rightarrow> rng \<Rightarrow> rng" where
  "advance k g = (\<lambda>i. g (i + k))"

definition choice_replace :: "'a list \<Rightarrow> nat \<Rightarrow> rng \<Rightarrow> (error + 'a list) \<times> rng" where
  "choice_replace a sz g =
     (if a = [] \<and> sz \<noteq> 0 then (Inl ValueError, g)
      else (Inr (map (\<lambda>i. a ! (g i mod length a)) [0..<sz]), advance sz g))"

fun draw_distinct :: "nat \<Rightarrow> 'a list \<Rightarrow> rng \<Rightarrow> 'a list" where
  "draw_distinct 0 a g = []"
| "draw_distinct (Suc k) a g =
     (let i = g 0 mod length a
      in a ! i # draw_distinct k (take i a @ drop (Suc i) a) (advance 1 g))"

definition choice_no_replace :: "'a list \<Rightarrow> nat \<Rightarrow> rng \<Rightarrow> (error + 'a list) \<times> rng" where
  "choice_no_replace a sz g =
     (if a = [] \<and> sz \<noteq> 0 then (Inl ValueError, g)
      else if sz > length a then (Inl ValueError, g)
      else (Inr (draw_distinct sz a g), advance sz g))"

section \<open>Batches\<close>

text \<open>
  The second half of \<^verbatim>\<open>_windows_batch\<close>: index the three tensors with the chosen window
  positions, then cut the windows into the fields of the batch.
\<close>

definition parse_batch ::
  "TimeSeriesLoader \<Rightarrow> val list list list \<Rightarrow> val list list \<Rightarrow> int list \<Rightarrow> nat list \<Rightarrow>
   error + batch" where
  "parse_batch self windows s_mat ts_idxs windows_idxs =
     (let nc = n_channels (ts_dataset self); cols = TimeSeriesLoader.t_cols self in
      case take_rows windows (map int windows_idxs) of Inl e \<Rightarrow> Inl e | Inr windows' \<Rightarrow>
      case take_rows s_mat (map int windows_idxs) of Inl e \<Rightarrow> Inl e | Inr s' \<Rightarrow>
      case take_rows ts_idxs (map int windows_idxs) of Inl e \<Rightarrow> Inl e | Inr ts_idxs' \<Rightarrow>
      case list_index cols ''y'' of Inl e \<Rightarrow> Inl e | Inr yi \<Rightarrow>
      case select_channel nc windows' yi of Inl e \<Rightarrow> Inl e | Inr y' \<Rightarrow>
      case list_index cols ''available_mask'' of Inl e \<Rightarrow> Inl e | Inr ai \<Rightarrow>
      case select_channel nc windows' ai of Inl e \<Rightarrow> Inl e | Inr available_mask' \<Rightarrow>
      case list_index cols ''sample_mask'' of Inl e \<Rightarrow> Inl e | Inr si \<Rightarrow>
      case select_channel nc windows' si of Inl e \<Rightarrow> Inl e | Inr sample_mask' \<Rightarrow>
        Inr \<lparr>S = s', Y = y', X = map (\<lambda>w. py_slice w (yi + 1) ai) windows',
             available_mask = available_mask', sample_mask = sample_mask',
             idxs = ts_idxs'\<rparr>)"

text \<open>\<^verbatim>\<open>_windows_batch\<close>: the random source is read only when \<open>shuffle\<close> is set.\<close>

definition windows_batch ::
  "TimeSeriesLoader \<Rightarrow> int list \<Rightarrow> rng \<Rightarrow> (error + batch) \<times> rng" where
  "windows_batch self index g =
     (case create_windows_tensor self (Some index) of
        Inl e \<Rightarrow> (Inl e, g)
      | Inr (windows, s_mat, ts_idxs) \<Rightarrow>
         (case get_sampleable_windows_idxs self windows of
            Inl e \<Rightarrow> (Inl e, g)
          | Inr sampleable_windows \<Rightarrow>
             (case (if shuffle self
                    then choice_replace sampleable_windows (batch_size self) g
                    else (Inr sampleable_windows, g)) of
                (Inl e, g') \<Rightarrow> (Inl e, g')
              | (Inr windows_idxs, g') \<Rightarrow>
                 (parse_batch self windows s_mat ts_idxs windows_idxs, g'))))"

text \<open>\<^verbatim>\<open>__getitem__\<close>\<close>

definition getitem :: "TimeSeriesLoader \<Rightarrow> int list \<Rightarrow> rng \<Rightarrow> (error + batch) \<times> rng" where
  "getitem self index g = windows_batch self index g"

text \<open>
  \<^verbatim>\<open>__iter__\<close> is a generator: a pass hands out the batches one by one and stops at the
  first exception.  The result of a pass is the list of batches handed out, the exception
  that ended it (if any) and the random source afterwards.
\<close>

fun iter_loop ::
  "TimeSeriesLoader \<Rightarrow> nat list \<Rightarrow> nat list \<Rightarrow> rng \<Rightarrow> batch list \<times> error option \<times> rng" where
  "iter_loop self sample_idxs [] g = ([], None, g)"
| "iter_loop self sample_idxs (idx # rest) g =
     (let ts_idxs = py_slice sample_idxs (idx * n_series_per_batch self)
                                         ((idx + 1) * n_series_per_batch self)
      in case getitem self (map int ts_idxs) g of
           (Inl e, g') \<Rightarrow> ([], Some e, g')
         | (Inr b, g') \<Rightarrow>
            (case iter_loop self sample_idxs rest g' of
               (bs, err, g'') \<Rightarrow> (b # bs, err, g'')))"

definition iter :: "TimeSeriesLoader \<Rightarrow> rng \<Rightarrow> batch list \<times> error option \<times> rng" where
  "iter self g =
     (case (if shuffle self
            then choice_no_replace (sampleable_ts_idxs self) (n_sampleable_ts self) g
            else (Inr (sampleable_ts_idxs self), g)) of
        (Inl e, g') \<Rightarrow> ([], Some e, g')
      | (Inr sample_idxs, g') \<Rightarrow> iter_loop self sample_idxs [0..<n_batches self] g')"

text \<open>
  The interpreter state a call runs in: the loader object and the global random source.
  No method body assigns to an attribute of \<open>self\<close> after construction, so a call returns
  the loader it was given; only the random source moves.
\<close>

record py_state =
  loader :: TimeSeriesLoader
  np_random :: rng

definition call_getitem :: "int list \<Rightarrow> py_state \<Rightarrow> (error + batch) \<times> py_state" where
  "call_getitem index st =
     (case getitem (loader st) index (np_random st) of
        (r, g') \<Rightarrow> (r, st\<lparr>np_random := g'\<rparr>))"


section \<open>Vocabulary of the specification\<close>

text \<open>
  The value of \<^verbatim>\<open>self.n_series_per_batch\<close> after the first lines of \<^verbatim>\<open>__init__\<close>: the
  argument when it is given, else \<^verbatim>\<open>min(batch_size, n_series)\<close>; and the loader object as
  \<^verbatim>\<open>__init__\<close> has filled it in when its checks begin.
\<close>

definition effective_n_series_per_batch :: "TimeSeriesDataset \<Rightarrow> nat \<Rightarrow> nat option \<Rightarrow> nat" where
  "effective_n_series_per_batch ds bsz nspb = (case nspb of Some n \<Rightarrow> n | None \<Rightarrow> min bsz (n_series ds))"

definition init_self ::
  "TimeSeriesDataset \<Rightarrow> string \<Rightarrow> nat \<Rightarrow> nat \<Rightarrow> nat \<Rightarrow> nat \<Rightarrow> nat \<Rightarrow> bool \<Rightarrow> bool \<Rightarrow>
   nat option \<Rightarrow> nat option \<Rightarrow> bool \<Rightarrow> TimeSeriesLoader" where
  "init_self ds mdl wsl isz osz freq bsz ci shf lsc nspb vrb =
     \<lparr>model = mdl, window_sampling_limit = wsl, input_size = isz,
      output_size = osz, batch_size = bsz, complete_inputs = ci,
      idx_to_sample_freq = freq, ts_dataset = ds,
      t_cols = TimeSeriesDataset.t_cols ds,
      f_idxs = TimeSeriesDataset.f_idxs ds,
      n_series_per_batch = effective_n_series_per_batch ds bsz nspb,
      len_sample_chunks = (case lsc of Some l \<Rightarrow> l | None \<Rightarrow> isz + osz),
      shuffle = shf, verbose = vrb, windows_size = 0, padding = (0, 0),
      sampleable_ts_idxs = [], n_sampleable_ts = 0, n_batches = 0\<rparr>"

text \<open>
  The specification calls ConfigurationError what the constructor raises on purpose: the
  two \<^verbatim>\<open>raise Exception\<close> statements and the two assertions.  Its invalid static
  configurations are the four it lists: an unknown model family, a supplied
  \<open>len_sample_chunks\<close> below \<open>input_size + output_size\<close>, a \<open>batch_size\<close> that is not a
  multiple of \<open>n_series_per_batch\<close>, an \<open>n_series_per_batch\<close> above the series count.
\<close>

definition ConfigurationError :: "error \<Rightarrow> bool" where
  "ConfigurationError e = (case e of Exception m \<Rightarrow> True | AssertionError \<Rightarrow> True | _ \<Rightarrow> False)"

definition invalid_config ::
  "TimeSeriesDataset \<Rightarrow> string \<Rightarrow> nat \<Rightarrow> nat \<Rightarrow> nat \<Rightarrow> nat option \<Rightarrow> nat option \<Rightarrow> bool" where
  "invalid_config ds mdl isz osz bsz lsc nspb =
     (mdl \<notin> {''nbeats'', ''esrnn''}
      \<or> (\<exists>l. lsc = Some l \<and> l < isz + osz)
      \<or> \<not> effective_n_series_per_batch ds bsz nspb dvd bsz
      \<or> effective_n_series_per_batch ds bsz nspb > n_series ds)"

text \<open>
  The last \<open>n\<close> and the first \<open>n\<close> time steps of a channel, and the eligibility of one
  window as the specification words it: the \<open>sample_mask\<close> channel sums to \<open>output_size\<close>
  over the last \<open>output_size\<close> steps and, under \<open>complete_inputs\<close>, the \<open>available_mask\<close>
  channel sums to \<open>windows_size - output_size\<close> over the first
  \<open>windows_size - output_size\<close> steps.
\<close>

definition last_steps :: "nat \<Rightarrow> 'a list \<Rightarrow> 'a list" where
  "last_steps n xs = drop (length xs - n) xs"

definition first_steps :: "nat \<Rightarrow> 'a list \<Rightarrow> 'a list" where
  "first_steps n xs = take n xs"

definition window_eligible :: "TimeSeriesLoader \<Rightarrow> val list list \<Rightarrow> bool" where
  "window_eligible self w =
     (case list_index (TimeSeriesLoader.t_cols self) ''sample_mask'' of
        Inl e \<Rightarrow> False
      | Inr sm \<Rightarrow>
          sum_list (last_steps (output_size self) (w ! sm)) = real (output_size self) \<and>
          (complete_inputs self \<longrightarrow>
             (case list_index (TimeSeriesLoader.t_cols self) ''available_mask'' of
                Inl e \<Rightarrow> False
              | Inr am \<Rightarrow>
                  sum_list (first_steps (windows_size self - output_size self) (w ! am))
                    = real (windows_size self - output_size self))))"

text \<open>
  A channel after the zero padding; the window of one series at position \<open>j\<close>: the slice of
  length \<open>w\<close> that starts at offset \<open>j * step\<close> of every padded channel; a tensor of shape
  \<open>(n, c, l)\<close>; and the number \<open>k = floor((L - W) / S) + 1\<close> of windows of one series.
\<close>

definition pad_channel :: "nat \<times> nat \<Rightarrow> val list \<Rightarrow> val list" where
  "pad_channel p c = replicate (fst p) 0 @ c @ replicate (snd p) 0"

definition window_at :: "nat \<Rightarrow> nat \<Rightarrow> nat \<times> nat \<Rightarrow> val list list \<Rightarrow> nat \<Rightarrow> val list list" where
  "window_at w step p series j = map (\<lambda>c. take w (drop (j * step) (pad_channel p c))) series"

definition rectangular :: "nat \<Rightarrow> nat \<Rightarrow> nat \<Rightarrow> 'a list list list \<Rightarrow> bool" where
  "rectangular n c l a =
     (length a = n \<and> (\<forall>s \<in> set a. length s = c \<and> (\<forall>ch \<in> set s. length ch = l)))"

definition windows_per_series :: "nat \<Rightarrow> nat \<Rightarrow> nat \<Rightarrow> nat" where
  "windows_per_series l w step = (l - w) div step + 1"

text \<open>
  The rows of a tensor at a list of positions, in the order of the list, and the batch made
  of the windows at those positions: the aligned static rows, the \<open>y\<close> channel, the
  channels strictly between \<open>y\<close> and \<open>available_mask\<close>, the two masks and the series
  index of every window.  A batch contains \<open>n\<close> windows when each of its six fields has
  \<open>n\<close> rows.
\<close>

definition rows_at :: "'a list \<Rightarrow> nat list \<Rightarrow> 'a list" where
  "rows_at a positions = map (\<lambda>i. a ! i) positions"

definition batch_of ::
  "nat \<Rightarrow> nat \<Rightarrow> nat \<Rightarrow> val list list list \<Rightarrow> val list list \<Rightarrow> int list \<Rightarrow> nat list \<Rightarrow> batch" where
  "batch_of yi ai si windows s_mat ts_idxs positions =
     \<lparr>S = rows_at s_mat positions,
      Y = map (\<lambda>w. w ! yi) (rows_at windows positions),
      X = map (\<lambda>w. py_slice w (yi + 1) ai) (rows_at windows positions),
      available_mask = map (\<lambda>w. w ! ai) (rows_at windows positions),
      sample_mask = map (\<lambda>w. w ! si) (rows_at windows positions),
      idxs = rows_at ts_idxs positions\<rparr>"

definition selects ::
  "TimeSeriesLoader \<Rightarrow> val list list list \<Rightarrow> val list list \<Rightarrow> int list \<Rightarrow> nat list \<Rightarrow>
   batch \<Rightarrow> bool" where
  "selects self windows s_mat ts_idxs positions b =
     (case list_index (TimeSeriesLoader.t_cols self) ''y'' of
        Inl e \<Rightarrow> False
      | Inr yi \<Rightarrow>
         (case list_index (TimeSeriesLoader.t_cols self) ''available_mask'' of
            Inl e \<Rightarrow> False
          | Inr ai \<Rightarrow>
             (case list_index (TimeSeriesLoader.t_cols self) ''sample_mask'' of
                Inl e \<Rightarrow> False
              | Inr si \<Rightarrow> b = batch_of yi ai si windows s_mat ts_idxs positions)))"

definition has_size :: "batch \<Rightarrow> nat \<Rightarrow> bool" where
  "has_size b n =
     (length (S b) = n \<and> length (Y b) = n \<and> length (X b) = n \<and>
      length (available_mask b) = n \<and> length (sample_mask b) = n \<and> length (idxs b) = n)"



fun run_chunks ::
  "TimeSeriesLoader \<Rightarrow> int list list \<Rightarrow> rng \<Rightarrow> batch list \<times> error option \<times> rng" where
  "run_chunks self [] g = ([], None, g)"
| "run_chunks self (c # cs) g =
     (case getitem self c g of
        (Inl e, g') \<Rightarrow> ([], Some e, g')
      | (Inr b, g') \<Rightarrow>
         (case run_chunks self cs g' of (bs, err, g'') \<Rightarrow> (b # bs, err, g'')))"

text \<open>
  The three named channels are present when each of \<open>y\<close>, \<open>available_mask\<close> and
  \<open>sample_mask\<close> is a column of the loader with a position below the channel count of the
  store.  The chunks of one pass are the consecutive chunks of the sampleable series
  indices, as the index arrays handed to the indexing operation.
\<close>

definition columns_present :: "TimeSeriesLoader \<Rightarrow> bool" where
  "columns_present self =
     list_all (\<lambda>c. case list_index (TimeSeriesLoader.t_cols self) c of
                      Inl e \<Rightarrow> False
                    | Inr i \<Rightarrow> i < n_channels (ts_dataset self))
       [''y'', ''available_mask'', ''sample_mask'']"



section \<open>A small store and its loaders\<close>

text \<open>
  Three series of three time steps with the channels \<open>y\<close>, \<open>available_mask\<close>, \<open>sample_mask\<close>;
  the store hands out the requested series unfiltered.  The loaders \<open>ex_loader\<close> are what
  the constructor returns for \<open>nbeats\<close> with \<open>input_size = output_size = 1\<close>, stride \<open>1\<close>,
  \<open>batch_size = 2\<close> and one series per batch; \<open>ex_loader_h0\<close> is the one for
  \<open>input_size = 2\<close> and a horizon of zero.
\<close>

definition ex_tensor :: tensor where
  "ex_tensor = [[[1, 2, 3], [1, 1, 1], [1, 1, 1]],
                [[4, 5, 6], [1, 1, 1], [0, 1, 1]],
                [[7, 8, 9], [1, 1, 1], [0, 0, 0]]]"

definition ex_store :: TimeSeriesDataset where
  "ex_store = \<lparr>TimeSeriesDataset.t_cols = [''y'', ''available_mask'', ''sample_mask''],
     TimeSeriesDataset.f_idxs = [],
     n_series = 3, n_channels = 3, ts_tensor = ex_tensor, s_matrix = [[10], [20], [30]],
     get_filtered_ts_tensor = (\<lambda>osz wsl idx. case idx of None \<Rightarrow> ex_tensor
        | Some is \<Rightarrow> map (\<lambda>i. ex_tensor ! nat i) is)\<rparr>"

definition ex_loader :: "bool \<Rightarrow> bool \<Rightarrow> TimeSeriesLoader" where
  "ex_loader ci shf = \<lparr>model = ''nbeats'', window_sampling_limit = 3, input_size = 1,
     output_size = 1, batch_size = 2, complete_inputs = ci, idx_to_sample_freq = 1,
     ts_dataset = ex_store, t_cols = [''y'', ''available_mask'', ''sample_mask''],
     f_idxs = [], n_series_per_batch = 1, len_sample_chunks = 2, shuffle = shf,
     verbose = False, windows_size = 2, padding = (1, 1),
     sampleable_ts_idxs = (if ci then [0] else [0, 1]),
     n_sampleable_ts = (if ci then 1 else 2), n_batches = (if ci then 1 else 2)\<rparr>"

definition ex_loader_h0 :: TimeSeriesLoader where
  "ex_loader_h0 = \<lparr>model = ''nbeats'', window_sampling_limit = 3, input_size = 2,
     output_size = 0, batch_size = 2, complete_inputs = False, idx_to_sample_freq = 1,
     ts_dataset = ex_store, t_cols = [''y'', ''available_mask'', ''sample_mask''],
     f_idxs = [], n_series_per_batch = 1, len_sample_chunks = 2, shuffle = False,
     verbose = False, windows_size = 2, padding = (2, 0),
     sampleable_ts_idxs = [0, 1], n_sampleable_ts = 2, n_batches = 2\<rparr>"

text \<open>
  What the windowing engine makes of them: the windows of the series subsets \<open>[0, 1]\<close>,
  \<open>[0]\<close>, \<open>[1]\<close> and \<open>[2]\<close>, the windows of \<open>[0]\<close> for the horizon of zero, and the batches
  of \<open>[0]\<close> and \<open>[1]\<close> without \<open>shuffle\<close> and of \<open>[0]\<close> with the random source
  \<open>0, 1, 2, ...\<close> under \<open>shuffle\<close>.
\<close>

definition ex_windows :: "val list list list" where
  "ex_windows = [[[0, 1], [0, 1], [0, 1]], [[1, 2], [1, 1], [1, 1]],
       [[2, 3], [1, 1], [1, 1]], [[3, 0], [1, 0], [1, 0]],
       [[0, 4], [0, 1], [0, 0]], [[4, 5], [1, 1], [0, 1]],
       [[5, 6], [1, 1], [1, 1]], [[6, 0], [1, 0], [1, 0]]]"

definition ex_windows_0 :: "val list list list" where
  "ex_windows_0 = [[[0, 1], [0, 1], [0, 1]], [[1, 2], [1, 1], [1, 1]],
                   [[2, 3], [1, 1], [1, 1]], [[3, 0], [1, 0], [1, 0]]]"

definition ex_windows_1 :: "val list list list" where
  "ex_windows_1 = [[[0, 4], [0, 1], [0, 0]], [[4, 5], [1, 1], [0, 1]],
                   [[5, 6], [1, 1], [1, 1]], [[6, 0], [1, 0], [1, 0]]]"

definition ex_windows_2 :: "val list list list" where
  "ex_windows_2 = [[[0, 7], [0, 1], [0, 0]], [[7, 8], [1, 1], [0, 0]],
                   [[8, 9], [1, 1], [0, 0]], [[9, 0], [1, 0], [0, 0]]]"

definition ex_windows_h0 :: "val list list list" where
  "ex_windows_h0 = [[[0, 0], [0, 0], [0, 0]], [[0, 1], [0, 1], [0, 1]],
                    [[1, 2], [1, 1], [1, 1]], [[2, 3], [1, 1], [1, 1]]]"

definition ex_batch_0 :: batch where
  "ex_batch_0 = \<lparr>S = [[10], [10], [10]], Y = [[0, 1], [1, 2], [2, 3]], X = [[], [], []],
      available_mask = [[0, 1], [1, 1], [1, 1]], sample_mask = [[0, 1], [1, 1], [1, 1]],
      idxs = [0, 0, 0]\<rparr>"


definition ex_batch_shuffled :: batch where
  "ex_batch_shuffled = \<lparr>S = [[10], [10]], Y = [[0, 1], [1, 2]], X = [[], []],
      available_mask = [[0, 1], [1, 1]], sample_mask = [[0, 1], [1, 1]], idxs = [0, 0]\<rparr>"

text \<open>
  The loader \<open>ex_loader_big\<close> is \<open>ex_loader False True\<close> with \<open>batch_size = 5\<close>, more than
  the two eligible windows of series 1; \<open>ex_batch_big\<close> is its batch of \<open>[1]\<close> with the
  random source \<open>0, 1, 2, ...\<close>.
\<close>

definition ex_loader_big :: TimeSeriesLoader where
  "ex_loader_big = (ex_loader False True)\<lparr>batch_size := 5\<rparr>"

definition ex_batch_big :: batch where
  "ex_batch_big = \<lparr>S = [[20], [20], [20], [20], [20]],
      Y = [[4, 5], [5, 6], [4, 5], [5, 6], [4, 5]], X = [[], [], [], [], []],
      available_mask = [[1, 1], [1, 1], [1, 1], [1, 1], [1, 1]],
      sample_mask = [[0, 1], [1, 1], [0, 1], [1, 1], [0, 1]], idxs = [1, 1, 1, 1, 1]\<rparr>"








section \<open>Facts about the primitives\<close>

lemma set_argwhere: "i \<in> set (argwhere cond) \<longleftrightarrow> i < length cond \<and> cond ! i"
  by (auto simp: argwhere_def)

lemma distinct_argwhere: "distinct (argwhere cond)"
  by (simp add: argwhere_def)

lemma argwhere_Cons: "argwhere (b # bs) = (if b then [0] else []) @ map Suc (argwhere bs)"
proof -
  have "[0..<length (b # bs)] = 0 # map Suc [0..<length bs]"
    by (simp add: upt_conv_Cons map_Suc_upt del: upt_Suc)
  then show ?thesis
    unfolding argwhere_def by (simp add: filter_map comp_def del: upt_Suc)
qed

lemma argwhere_Nil: "argwhere [] = []"
  by (simp add: argwhere_def)

lemma advance_0: "advance 0 g = g"
  by (simp add: advance_def)

lemma list_index_errors: "list_index xs x = Inl e \<Longrightarrow> e = ValueError"
  by (induction xs) (auto split: if_splits sum.splits)

lemma select_channel_errors: "select_channel nc a c = Inl e \<Longrightarrow> e = IndexError"
  by (auto simp: select_channel_def split: if_splits)

lemma take_rows_errors: "take_rows a idx = Inl e \<Longrightarrow> e = IndexError"
  by (auto simp: take_rows_def split: if_splits)

lemma take_rows_nat:
  "take_rows a (map int positions) =
     (if \<forall>i \<in> set positions. i < length a then Inr (rows_at a positions) else Inl IndexError)"
  by (auto simp: take_rows_def rows_at_def in_bounds_def wrap_index_def list_all_iff)

lemma length_concat_uniform:
  "\<forall>b \<in> set bs. length b = k \<Longrightarrow> length (concat bs) = length bs * k"
  by (induction bs) simp_all

lemma nth_concat_uniform:
  "\<forall>b \<in> set bs. length b = k \<Longrightarrow> i < length bs \<Longrightarrow> j < k \<Longrightarrow>
   concat bs ! (i * k + j) = bs ! i ! j"
proof (induction bs arbitrary: i)
  case Nil
  then show ?case by simp
next
  case (Cons b bs)
  show ?case
  proof (cases i)
    case 0
    with Cons.prems show ?thesis by (simp add: nth_append)
  next
    case (Suc i')
    with Cons.prems have "concat bs ! (i' * k + j) = bs ! i' ! j"
      by (intro Cons.IH) simp_all
    with Suc Cons.prems show ?thesis by (simp add: nth_append)
  qed
qed

lemma repeat_rows_length: "length (repeat_rows a k) = length a * k"
  using length_concat_uniform[of "map (replicate k) a" k] by (simp add: repeat_rows_def)

lemma repeat_rows_nth:
  "i < length a \<Longrightarrow> j < k \<Longrightarrow> repeat_rows a k ! (i * k + j) = a ! i"
  unfolding repeat_rows_def
  using nth_concat_uniform[of "map (replicate k) a" k i j] by simp

lemma map_index_nth: "map (\<lambda>j. f (xs ! j)) [0..<length xs] = map f xs"
proof -
  have "map (\<lambda>j. f (xs ! j)) [0..<length xs] = map f (map (\<lambda>j. xs ! j) [0..<length xs])"
    by (simp add: comp_def)
  then show ?thesis by (simp only: map_nth)
qed

lemma chunks_append:
  assumes "0 < n" "length b = n"
  shows "chunks n (b @ ys) = b # chunks n ys"
proof -
  have d: "length (b @ ys) div n = Suc (length ys div n)"
    using assms by simp
  have "[0..<Suc (length ys div n)] = 0 # map Suc [0..<length ys div n]"
    by (simp add: upt_conv_Cons map_Suc_upt del: upt_Suc)
  then show ?thesis
    unfolding chunks_def d using assms by (simp add: comp_def del: upt_Suc)
qed

lemma chunks_concat:
  assumes "0 < n" "\<forall>b \<in> set bs. length b = n"
  shows "chunks n (concat bs) = bs"
  using assms(2)
proof (induction bs)
  case Nil
  then show ?case using assms(1) by (simp add: chunks_def)
next
  case (Cons b bs)
  then show ?case using chunks_append[OF assms(1), of b "concat bs"] by simp
qed





lemma take_rows_length: "take_rows a idx = Inr r \<Longrightarrow> length r = length idx"
  by (auto simp: take_rows_def split: if_splits)

lemma residue_count:
  assumes "j < n"
  shows "card {r. r < n * m \<and> r mod n = j} = m"
proof -
  have "{r. r < n * m \<and> r mod n = j} = (\<lambda>q. q * n + j) ` {..<m}"
  proof (intro set_eqI iffI)
    fix r assume "r \<in> {r. r < n * m \<and> r mod n = j}"
    then have r: "r < n * m" "r mod n = j" by simp_all
    from r(1) assms have "r div n < m"
      by (simp add: less_mult_imp_div_less mult.commute)
    moreover have "r = (r div n) * n + j" using r(2) by (metis div_mult_mod_eq)
    ultimately show "r \<in> (\<lambda>q. q * n + j) ` {..<m}" by blast
  next
    fix r assume "r \<in> (\<lambda>q. q * n + j) ` {..<m}"
    then obtain q where q: "q < m" "r = q * n + j" by blast
    have "q * n + j < Suc q * n" using assms by simp
    also have "\<dots> \<le> m * n" using q(1) by (intro mult_le_mono1) simp
    finally have "r < n * m" using q(2) by (simp add: mult.commute)
    moreover have "r mod n = j" using q(2) assms by simp
    ultimately show "r \<in> {r. r < n * m \<and> r mod n = j}" by simp
  qed
  moreover have "inj_on (\<lambda>q. q * n + j) {..<m}"
    using assms by (auto simp: inj_on_def)
  ultimately show ?thesis by (simp add: card_image)
qed

lemma index_vector_unique:
  assumes "distinct a" and "set d \<subseteq> set a"
  shows "\<exists>!r. length r = length d \<and> set r \<subseteq> {..<length a} \<and> map (\<lambda>j. a ! j) r = d"
proof (rule ex_ex1I)
  have "\<forall>i < length d. \<exists>j < length a. a ! j = d ! i"
    using assms(2) by (metis in_set_conv_nth nth_mem subsetD)
  then obtain f where f: "\<forall>i < length d. f i < length a \<and> a ! f i = d ! i"
    by metis
  let ?r = "map f [0..<length d]"
  have "length ?r = length d \<and> set ?r \<subseteq> {..<length a} \<and> map (\<lambda>j. a ! j) ?r = d"
    using f by (auto intro: nth_equalityI)
  then show "\<exists>r. length r = length d \<and> set r \<subseteq> {..<length a} \<and> map (\<lambda>j. a ! j) r = d"
    by blast
next
  fix r r'
  assume r: "length r = length d \<and> set r \<subseteq> {..<length a} \<and> map (\<lambda>j. a ! j) r = d"
    and r': "length r' = length d \<and> set r' \<subseteq> {..<length a} \<and> map (\<lambda>j. a ! j) r' = d"
  show "r = r'"
  proof (rule nth_equalityI)
    show "length r = length r'" using r r' by simp
    fix i assume i: "i < length r"
    then have "r ! i \<in> set r" "r' ! i \<in> set r'" using r r' by simp_all
    then have b: "r ! i < length a" "r' ! i < length a" using r r' by auto
    have i': "i < length r'" using i r r' by simp
    have "a ! (r ! i) = map (\<lambda>j. a ! j) r ! i" using i by simp
    also have "\<dots> = d ! i" using r by simp
    also have "\<dots> = map (\<lambda>j. a ! j) r' ! i" using r' by simp
    also have "\<dots> = a ! (r' ! i)" using i' by simp
    finally show "r ! i = r' ! i"
      using assms(1) b by (simp add: nth_eq_iff_index_eq)
  qed
qed

lemma uniform_draw:
  assumes "distinct a" and "e \<in> set a"
  shows "card {r. r < length a * m \<and> a ! (r mod length a) = e} = m"
proof -
  from assms(2) obtain j where j: "j < length a" "a ! j = e"
    by (auto simp: in_set_conv_nth)
  have "{r. r < length a * m \<and> a ! (r mod length a) = e}
          = {r. r < length a * m \<and> r mod length a = j}"
  proof (intro set_eqI iffI)
    fix r assume "r \<in> {r. r < length a * m \<and> a ! (r mod length a) = e}"
    then have r: "r < length a * m" "a ! (r mod length a) = a ! j" using j by simp_all
    from j(1) have "0 < length a" by arith
    then have "r mod length a < length a" by (rule mod_less_divisor)
    with r(2) j(1) assms(1) have "r mod length a = j" by (simp add: nth_eq_iff_index_eq)
    with r(1) show "r \<in> {r. r < length a * m \<and> r mod length a = j}" by simp
  next
    fix r assume "r \<in> {r. r < length a * m \<and> r mod length a = j}"
    then show "r \<in> {r. r < length a * m \<and> a ! (r mod length a) = e}" using j by simp
  qed
  then show ?thesis using residue_count[OF j(1)] by simp
qed


section \<open>Facts about construction\<close>

lemma define_attributes_by_model_Inr:
  assumes "define_attributes_by_model s = Inr s'"
  shows "(model s = ''nbeats'' \<or> model s = ''esrnn'')"
    and "s' = s\<lparr>windows_size := (if model s = ''nbeats'' then input_size s + output_size s
                                   else len_sample_chunks s),
                 padding := (if model s = ''nbeats'' then (input_size s, output_size s) else (0, 0))\<rparr>"
  using assms by (auto simp: define_attributes_by_model_def split: if_splits)

lemma define_sampleable_ts_idxs_Inr:
  assumes "define_sampleable_ts_idxs s = Inr s'"
  shows "\<exists>c. list_index (TimeSeriesLoader.t_cols s) ''sample_mask'' = Inr c \<and>
             c < n_channels (ts_dataset s) \<and>
             s' = s\<lparr>sampleable_ts_idxs :=
                       argwhere (map (\<lambda>ser. sum_list (ser ! c) >
                          real (if complete_inputs s then windows_size s else output_size s))
                          (ts_tensor (ts_dataset s))),
                     n_sampleable_ts := length
                       (argwhere (map (\<lambda>ser. sum_list (ser ! c) >
                          real (if complete_inputs s then windows_size s else output_size s))
                          (ts_tensor (ts_dataset s))))\<rparr>"
  using assms
  by (auto simp: define_sampleable_ts_idxs_def select_channel_def Let_def comp_def
           split: sum.splits if_splits)

lemma init_Inr:
  assumes "init ds mdl wsl isz osz freq bsz ci shf lsc nspb vrb = Inr self"
  shows "effective_n_series_per_batch ds bsz nspb \<noteq> 0"
    and "bsz mod effective_n_series_per_batch ds bsz nspb = 0"
    and "effective_n_series_per_batch ds bsz nspb \<le> n_series ds"
    and "mdl = ''nbeats'' \<or> mdl = ''esrnn''"
    and "\<forall>l. lsc = Some l \<longrightarrow> isz + osz \<le> l"
    and "\<exists>c. list_index (TimeSeriesDataset.t_cols ds) ''sample_mask'' = Inr c \<and>
             c < n_channels ds \<and>
             sampleable_ts_idxs self =
               argwhere (map (\<lambda>ser. sum_list (ser ! c) >
                          real (if ci then windows_size self else osz)) (ts_tensor ds))"
    and "model self = mdl" and "window_sampling_limit self = wsl"
    and "input_size self = isz" and "output_size self = osz" and "batch_size self = bsz"
    and "complete_inputs self = ci" and "idx_to_sample_freq self = freq"
    and "ts_dataset self = ds" and "TimeSeriesLoader.t_cols self = TimeSeriesDataset.t_cols ds"
    and "n_series_per_batch self = effective_n_series_per_batch ds bsz nspb"
    and "len_sample_chunks self = (case lsc of Some l \<Rightarrow> l | None \<Rightarrow> isz + osz)"
    and "shuffle self = shf"
    and "windows_size self = (if mdl = ''nbeats'' then isz + osz
                              else (case lsc of Some l \<Rightarrow> l | None \<Rightarrow> isz + osz))"
    and "padding self = (if mdl = ''nbeats'' then (isz, osz) else (0, 0))"
    and "n_sampleable_ts self = length (sampleable_ts_idxs self)"
    and "n_batches self = nat \<lceil>real (n_sampleable_ts self) / real (n_series_per_batch self)\<rceil>"
proof -
  let ?n = "effective_n_series_per_batch ds bsz nspb"
  let ?l = "(case lsc of Some l \<Rightarrow> l | None \<Rightarrow> isz + osz)"
  let ?s0 = "\<lparr>model = mdl, window_sampling_limit = wsl, input_size = isz,
                    output_size = osz, batch_size = bsz, complete_inputs = ci,
                    idx_to_sample_freq = freq, ts_dataset = ds,
                    t_cols = TimeSeriesDataset.t_cols ds,
                    f_idxs = TimeSeriesDataset.f_idxs ds,
                    n_series_per_batch = ?n, len_sample_chunks = ?l,
                    shuffle = shf, verbose = vrb, windows_size = 0, padding = (0, 0),
                    sampleable_ts_idxs = [], n_sampleable_ts = 0, n_batches = 0\<rparr>"
  from assms have a: "\<not> (case lsc of Some l \<Rightarrow> l < isz + osz | None \<Rightarrow> False)"
    and b: "?n \<noteq> 0" and c: "bsz mod ?n = 0" and d: "?n \<le> n_series ds"
    by (auto simp: init_def Let_def effective_n_series_per_batch_def split: if_splits)
  from assms a b c d obtain s1 s2 where
    s1: "define_attributes_by_model ?s0 = Inr s1" and
    s2: "define_sampleable_ts_idxs s1 = Inr s2" and
    s: "self = s2\<lparr>n_batches := nat \<lceil>real (n_sampleable_ts s2) / real (n_series_per_batch s2)\<rceil>\<rparr>"
    by (auto simp: init_def Let_def effective_n_series_per_batch_def split: if_splits sum.splits)
  note m = define_attributes_by_model_Inr[OF s1]
  from define_sampleable_ts_idxs_Inr[OF s2] obtain c where
    c1: "list_index (TimeSeriesLoader.t_cols s1) ''sample_mask'' = Inr c"
    and c2: "c < n_channels (ts_dataset s1)"
    and c3: "s2 = s1\<lparr>sampleable_ts_idxs :=
                       argwhere (map (\<lambda>ser. sum_list (ser ! c) >
                          real (if complete_inputs s1 then windows_size s1 else output_size s1))
                          (ts_tensor (ts_dataset s1))),
                     n_sampleable_ts := length
                       (argwhere (map (\<lambda>ser. sum_list (ser ! c) >
                          real (if complete_inputs s1 then windows_size s1 else output_size s1))
                          (ts_tensor (ts_dataset s1))))\<rparr>"
    by blast
  show "?n \<noteq> 0" by (rule b)
  show "bsz mod ?n = 0" by (rule c)
  show "?n \<le> n_series ds" by (rule d)
  show "mdl = ''nbeats'' \<or> mdl = ''esrnn''" using m(1) by simp
  show "\<forall>l. lsc = Some l \<longrightarrow> isz + osz \<le> l" using a by (auto split: option.splits)
  show "model self = mdl" "window_sampling_limit self = wsl"
    "input_size self = isz" "output_size self = osz" "batch_size self = bsz"
    "complete_inputs self = ci" "idx_to_sample_freq self = freq"
    "ts_dataset self = ds" "TimeSeriesLoader.t_cols self = TimeSeriesDataset.t_cols ds"
    "n_series_per_batch self = ?n" "len_sample_chunks self = ?l" "shuffle self = shf"
    using m(2) c3 s by simp_all
  show w: "windows_size self = (if mdl = ''nbeats'' then isz + osz else ?l)"
    using m(2) c3 s by simp
  show "padding self = (if mdl = ''nbeats'' then (isz, osz) else (0, 0))"
    using m(2) c3 s by simp
  show "n_sampleable_ts self = length (sampleable_ts_idxs self)"
    using c3 s by simp
  show "n_batches self = nat \<lceil>real (n_sampleable_ts self) / real (n_series_per_batch self)\<rceil>"
    using s by simp
  have "sampleable_ts_idxs self =
               argwhere (map (\<lambda>ser. sum_list (ser ! c) >
                          real (if ci then windows_size self else osz)) (ts_tensor ds))"
    using m(2) c3 s by simp
  moreover have "list_index (TimeSeriesDataset.t_cols ds) ''sample_mask'' = Inr c"
    using c1 m(2) by simp
  moreover have "c < n_channels ds" using c2 m(2) by simp
  ultimately show "\<exists>c. list_index (TimeSeriesDataset.t_cols ds) ''sample_mask'' = Inr c \<and>
             c < n_channels ds \<and>
             sampleable_ts_idxs self =
               argwhere (map (\<lambda>ser. sum_list (ser ! c) >
                          real (if ci then windows_size self else osz)) (ts_tensor ds))"
    by blast
qed

lemma init_output_size_le_windows_size:
  assumes "init ds mdl wsl isz osz freq bsz ci shf lsc nspb vrb = Inr self"
  shows "output_size self \<le> windows_size self"
  using init_Inr(5,10,19)[OF assms] by (auto split: option.splits)

lemma init_unfold:
  "init ds mdl wsl isz osz freq bsz ci shf lsc nspb vrb =
     (if (case lsc of Some l \<Rightarrow> l < isz + osz | None \<Rightarrow> False)
        then Inl (Exception ''Insufficient len of sample chunks'')
      else if effective_n_series_per_batch ds bsz nspb = 0 then Inl ZeroDivisionError
      else if bsz mod effective_n_series_per_batch ds bsz nspb \<noteq> 0 then Inl AssertionError
      else if \<not> effective_n_series_per_batch ds bsz nspb \<le> n_series ds then Inl AssertionError
      else (case define_attributes_by_model
                   (init_self ds mdl wsl isz osz freq bsz ci shf lsc nspb vrb) of
              Inl e \<Rightarrow> Inl e
            | Inr self1 \<Rightarrow>
               (case define_sampleable_ts_idxs self1 of
                  Inl e \<Rightarrow> Inl e
                | Inr self2 \<Rightarrow>
                   Inr (self2\<lparr>n_batches :=
                          nat \<lceil>real (n_sampleable_ts self2) /
                               real (n_series_per_batch self2)\<rceil>\<rparr>))))"
  unfolding init_def init_self_def effective_n_series_per_batch_def Let_def by (rule refl)

lemma init_self_simps:
  "model (init_self ds mdl wsl isz osz freq bsz ci shf lsc nspb vrb) = mdl"
  "ts_dataset (init_self ds mdl wsl isz osz freq bsz ci shf lsc nspb vrb) = ds"
  "TimeSeriesLoader.t_cols (init_self ds mdl wsl isz osz freq bsz ci shf lsc nspb vrb)
     = TimeSeriesDataset.t_cols ds"
  by (simp_all add: init_self_def)

lemma define_attributes_by_model_unknown:
  "model s \<noteq> ''nbeats'' \<Longrightarrow> model s \<noteq> ''esrnn'' \<Longrightarrow>
   define_attributes_by_model s = Inl (Exception ''There is no batch strategy for'')"
  by (simp add: define_attributes_by_model_def)

lemma define_attributes_by_model_known:
  "model s = ''nbeats'' \<or> model s = ''esrnn'' \<Longrightarrow>
   \<exists>s'. define_attributes_by_model s = Inr s' \<and> ts_dataset s' = ts_dataset s \<and>
        TimeSeriesLoader.t_cols s' = TimeSeriesLoader.t_cols s"
  by (auto simp: define_attributes_by_model_def)

lemma define_sampleable_ts_idxs_total:
  "list_index (TimeSeriesLoader.t_cols s) ''sample_mask'' = Inr c \<Longrightarrow>
   c < n_channels (ts_dataset s) \<Longrightarrow> \<exists>s'. define_sampleable_ts_idxs s = Inr s'"
  by (simp add: define_sampleable_ts_idxs_def select_channel_def Let_def)

lemma init_valid:
  assumes n: "effective_n_series_per_batch ds bsz nspb \<noteq> 0"
    and c: "list_index (TimeSeriesDataset.t_cols ds) ''sample_mask'' = Inr c"
           "c < n_channels ds"
    and v: "\<not> invalid_config ds mdl isz osz bsz lsc nspb"
  shows "\<exists>self. init ds mdl wsl isz osz freq bsz ci shf lsc nspb vrb = Inr self"
proof -
  let ?s0 = "init_self ds mdl wsl isz osz freq bsz ci shf lsc nspb vrb"
  from v have m: "model ?s0 = ''nbeats'' \<or> model ?s0 = ''esrnn''"
    and l: "\<not> (case lsc of Some l \<Rightarrow> l < isz + osz | None \<Rightarrow> False)"
    and d: "bsz mod effective_n_series_per_batch ds bsz nspb = 0"
    and le: "effective_n_series_per_batch ds bsz nspb \<le> n_series ds"
    by (auto simp: invalid_config_def init_self_simps split: option.splits)
  from define_attributes_by_model_known[OF m] obtain s1 where
    s1: "define_attributes_by_model ?s0 = Inr s1" "ts_dataset s1 = ds"
        "TimeSeriesLoader.t_cols s1 = TimeSeriesDataset.t_cols ds"
    by (auto simp: init_self_simps)
  from define_sampleable_ts_idxs_total[of s1 c] c s1 obtain s2 where
    s2: "define_sampleable_ts_idxs s1 = Inr s2" by auto
  show ?thesis
    by (simp add: init_unfold l n d le s1 s2)
qed

lemma init_invalid:
  assumes n: "effective_n_series_per_batch ds bsz nspb \<noteq> 0"
    and v: "invalid_config ds mdl isz osz bsz lsc nspb"
  shows "\<exists>e. init ds mdl wsl isz osz freq bsz ci shf lsc nspb vrb = Inl e \<and> ConfigurationError e"
proof -
  let ?s0 = "init_self ds mdl wsl isz osz freq bsz ci shf lsc nspb vrb"
  have ce: "ConfigurationError (Exception m)" "ConfigurationError AssertionError" for m
    by (simp_all add: ConfigurationError_def)
  show ?thesis
  proof (cases "(case lsc of Some l \<Rightarrow> l < isz + osz | None \<Rightarrow> False)")
    case True
    then show ?thesis by (simp add: init_unfold ce)
  next
    case len: False
    show ?thesis
    proof (cases "bsz mod effective_n_series_per_batch ds bsz nspb = 0")
      case False
      then show ?thesis using n len by (simp add: init_unfold ce)
    next
      case md: True
      show ?thesis
      proof (cases "effective_n_series_per_batch ds bsz nspb \<le> n_series ds")
        case False
        then show ?thesis using n len md by (simp add: init_unfold ce)
      next
        case le: True
        from v len md le have "mdl \<noteq> ''nbeats''" "mdl \<noteq> ''esrnn''"
          by (auto simp: invalid_config_def dvd_eq_mod_eq_0 split: option.splits)
        then have "define_attributes_by_model ?s0 =
                     Inl (Exception ''There is no batch strategy for'')"
          by (intro define_attributes_by_model_unknown) (simp_all add: init_self_simps)
        then show ?thesis using n len md le by (simp add: init_unfold ce)
      qed
    qed
  qed
qed

section \<open>Facts about the windowing engine\<close>

lemma windows_of_length: "length (windows_of w step xs) = (length xs - w) div step + 1"
  by (simp add: windows_of_def)

lemma windows_of_nth:
  "j < (length xs - w) div step + 1 \<Longrightarrow> windows_of w step xs ! j = take w (drop (j * step) xs)"
  by (simp add: windows_of_def del: upt_Suc)

lemma unfold_last_ok:
  assumes "0 < step" "\<forall>s \<in> set a. \<forall>c \<in> set s. w \<le> length c"
  shows "unfold_last w step a = Inr (map (map (windows_of w step)) a)"
proof -
  have "\<not> (\<exists>s \<in> set a. \<exists>c \<in> set s. length c < w)"
  proof
    assume "\<exists>s \<in> set a. \<exists>c \<in> set s. length c < w"
    then obtain s c where "s \<in> set a" "c \<in> set s" "length c < w" by blast
    with assms(2) show False by fastforce
  qed
  with assms(1) show ?thesis by (simp add: unfold_last_def list_ex_iff)
qed

lemma transpose_windows:
  assumes "s \<noteq> []" "\<forall>c \<in> set s. length c = l"
  shows "transpose (map (windows_of w step) s) =
           map (\<lambda>j. map (\<lambda>c. take w (drop (j * step) c)) s) [0..<(l - w) div step + 1]"
proof -
  let ?k = "(l - w) div step + 1"
  let ?xs = "map (windows_of w step) s"
  have "transpose ?xs = map (\<lambda>i. map (\<lambda>j. ?xs ! j ! i) [0..<length ?xs]) [0..<?k]"
  proof (rule transpose_rectangle)
    show "?xs = [] \<Longrightarrow> ?k = 0" using assms(1) by simp
    fix i assume "i < length ?xs"
    then have i: "i < length s" by simp
    then have "s ! i \<in> set s" by simp
    with assms(2) have "length (s ! i) = l" by blast
    with i show "length (?xs ! i) = ?k"
      by (simp add: windows_of_length)
  qed
  also have "\<dots> = map (\<lambda>j. map (\<lambda>c. take w (drop (j * step) c)) s) [0..<?k]"
  proof (rule map_cong[OF refl])
    fix i assume "i \<in> set [0..<?k]"
    then have i: "i < ?k" by (simp del: upt_Suc)
    have "map (\<lambda>j. ?xs ! j ! i) [0..<length ?xs]
            = map (\<lambda>j. windows_of w step (s ! j) ! i) [0..<length s]"
      by simp
    also have "\<dots> = map (\<lambda>c. windows_of w step c ! i) s"
      by (rule map_index_nth)
    also have "\<dots> = map (\<lambda>c. take w (drop (i * step) c)) s"
      using assms(2) i by (simp add: windows_of_nth)
    finally show "map (\<lambda>j. ?xs ! j ! i) [0..<length ?xs]
                    = map (\<lambda>c. take w (drop (i * step) c)) s" .
  qed
  finally show ?thesis .
qed

lemma take_drop_window_length:
  assumes "w \<le> l" "0 < step" "j < (l - w) div step + 1" "length c = l"
  shows "length (take w (drop (j * step) c)) = w"
proof -
  from assms(3) have "j \<le> (l - w) div step" by simp
  then have "j * step \<le> (l - w) div step * step" by simp
  also have "\<dots> \<le> l - w" by (simp add: div_times_less_eq_dividend)
  finally show ?thesis using assms(1,4) by simp
qed

lemma windowing_blocks:
  fixes a :: tensor
  assumes rect: "rectangular n c l0 a" and c: "0 < c" and w: "0 < w" and st: "0 < step"
    and fit: "w \<le> fst p + l0 + snd p"
  defines "k \<equiv> windows_per_series (fst p + l0 + snd p) w step"
  defines "blocks \<equiv> concat (map (\<lambda>s. map (window_at w step p s) [0..<k]) a)"
  shows "\<exists>u. unfold_last w step (constant_pad p a) = Inr u \<and>
             reshape_windows c w (permute_0213 u) = Inr blocks"
    and "length blocks = n * k"
    and "rectangular (n * k) c w blocks"
    and "\<forall>i < n. \<forall>j < k. blocks ! (i * k + j) = window_at w step p (a ! i) j"
proof -
  let ?l = "fst p + l0 + snd p"
  let ?pa = "constant_pad p a"
  have pa: "?pa = map (map (pad_channel p)) a"
    by (simp add: constant_pad_def pad_channel_def)
  have len_a: "length a = n" and len_s: "\<And>s. s \<in> set a \<Longrightarrow> length s = c"
    and len_c: "\<And>s ch. s \<in> set a \<Longrightarrow> ch \<in> set s \<Longrightarrow> length ch = l0"
    using rect by (auto simp: rectangular_def)
  have plen: "length ch = ?l" if "s \<in> set ?pa" "ch \<in> set s" for s ch
    using that len_c by (auto simp: pa pad_channel_def)
  have u: "unfold_last w step ?pa = Inr (map (map (windows_of w step)) ?pa)"
  proof (rule unfold_last_ok[OF st])
    show "\<forall>s \<in> set ?pa. \<forall>ch \<in> set s. w \<le> length ch"
      using plen fit by auto
  qed
  have tr: "transpose (map (windows_of w step) (map (pad_channel p) s))
              = map (window_at w step p s) [0..<k]" if "s \<in> set a" for s
  proof -
    have ne: "map (pad_channel p) s \<noteq> []" using len_s[OF that] c by auto
    have all: "\<forall>ch \<in> set (map (pad_channel p) s). length ch = ?l"
      using len_c[OF that] by (auto simp: pad_channel_def)
    from transpose_windows[OF ne all, of w step]
    show ?thesis
      by (simp add: k_def windows_per_series_def window_at_def comp_def del: upt_Suc)
  qed
  have perm: "permute_0213 (map (map (windows_of w step)) ?pa)
                = map (\<lambda>s. map (window_at w step p s) [0..<k]) a"
    unfolding permute_0213_def pa using tr by (simp add: comp_def)
  have blen: "length b = c" if "b \<in> set blocks" for b
    using that len_s by (auto simp: blocks_def window_at_def)
  have rows: "concat (concat (map (\<lambda>s. map (window_at w step p s) [0..<k]) a)) = concat blocks"
    by (simp add: blocks_def)
  have rl: "length (concat blocks) = length blocks * c"
    using blen by (intro length_concat_uniform) blast
  have "reshape_windows c w (permute_0213 (map (map (windows_of w step)) ?pa)) = Inr blocks"
    unfolding perm reshape_windows_def Let_def rows
    using c w rl chunks_concat[OF c, of blocks] blen by simp
  with u show "\<exists>u. unfold_last w step ?pa = Inr u \<and>
             reshape_windows c w (permute_0213 u) = Inr blocks" by simp
  have inner: "\<forall>b \<in> set (map (\<lambda>s. map (window_at w step p s) [0..<k]) a). length b = k"
    by simp
  show lb: "length blocks = n * k"
    unfolding blocks_def using length_concat_uniform[OF inner] len_a by simp
  show nth: "\<forall>i < n. \<forall>j < k. blocks ! (i * k + j) = window_at w step p (a ! i) j"
  proof (intro allI impI)
    fix i j assume i: "i < n" and j: "j < k"
    from nth_concat_uniform[OF inner, of i j] i j len_a
    show "blocks ! (i * k + j) = window_at w step p (a ! i) j"
      by (simp add: blocks_def del: upt_Suc)
  qed
  have chl: "length ch = w" if "b \<in> set blocks" "ch \<in> set b" for b ch
  proof -
    from that(1) obtain s j where s: "s \<in> set a" and j: "j < k" and b: "b = window_at w step p s j"
      by (auto simp: blocks_def simp del: upt_Suc)
    from that(2) b obtain c0 where c0: "c0 \<in> set s" and ch: "ch = take w (drop (j * step) (pad_channel p c0))"
      by (auto simp: window_at_def)
    have "length (pad_channel p c0) = ?l" using len_c[OF s c0] by (simp add: pad_channel_def)
    from take_drop_window_length[OF fit st _ this, of j] j ch
    show ?thesis by (simp add: k_def windows_per_series_def)
  qed
  show "rectangular (n * k) c w blocks"
    unfolding rectangular_def using lb blen chl by blast
qed

lemma create_windows_tensor_errors:
  "create_windows_tensor self index = Inl e \<Longrightarrow>
   e \<in> {RuntimeError, IndexError, ZeroDivisionError, AttributeError}"
  by (auto simp: create_windows_tensor_def Let_def unfold_last_def reshape_windows_def
        take_rows_def split: sum.splits if_splits option.splits)

lemma create_windows_tensor_lengths:
  assumes "create_windows_tensor self (Some index) = Inr (windows, s_mat, ts_idxs)"
  shows "length s_mat = length index * (length windows div length index)"
    and "length ts_idxs = length index * (length windows div length index)"
  using assms
  by (auto simp: create_windows_tensor_def Let_def repeat_rows_length
           split: sum.splits if_splits dest: take_rows_length)

lemma create_windows_tensor_divides:
  assumes c: "create_windows_tensor self (Some index) = Inr (windows, s_mat, ts_idxs)"
    and rect: "rectangular (length index) (n_channels (ts_dataset self)) l0
                 (get_filtered_ts_tensor (ts_dataset self) (output_size self)
                    (window_sampling_limit self) (Some index))"
  shows "length index dvd length windows"
proof -
  let ?ds = "ts_dataset self"
  let ?sel = "get_filtered_ts_tensor ?ds (output_size self) (window_sampling_limit self)
                (Some index)"
  let ?w = "windows_size self" and ?st = "idx_to_sample_freq self" and ?p = "padding self"
  from c obtain u where
    u: "unfold_last ?w ?st (constant_pad ?p ?sel) = Inr u"
    and r: "reshape_windows (n_channels ?ds) ?w (permute_0213 u) = Inr windows"
    and ne: "index \<noteq> []"
    by (auto simp: create_windows_tensor_def Let_def split: sum.splits if_splits)
  from u have st: "0 < ?st"
    and nolt: "\<not> list_ex (list_ex (\<lambda>c. length c < ?w)) (constant_pad ?p ?sel)"
    by (auto simp: unfold_last_def split: if_splits)
  from r have nc: "0 < n_channels ?ds" and w: "0 < ?w"
    by (auto simp: reshape_windows_def Let_def split: if_splits)
  from rect ne have "?sel \<noteq> []" by (auto simp: rectangular_def)
  then obtain s0 where s0: "s0 \<in> set ?sel" by (cases ?sel) auto
  with rect nc have "s0 \<noteq> []" by (auto simp: rectangular_def)
  then obtain c0 where c0: "c0 \<in> set s0" by (cases s0) auto
  from rect s0 c0 have l: "length c0 = l0" by (auto simp: rectangular_def)
  have "pad_channel ?p c0 \<in> set (map (pad_channel ?p) s0)" using c0 by simp
  have "\<not> length (replicate (fst ?p) 0 @ c0 @ replicate (snd ?p) (0::real)) < ?w"
    using nolt s0 c0 by (auto simp: constant_pad_def list_ex_iff)
  then have fit: "?w \<le> fst ?p + l0 + snd ?p" using l by simp
  from windowing_blocks(1,2)[OF rect nc w st fit] u r
  have "length windows = length index *
          windows_per_series (fst ?p + l0 + snd ?p) ?w ?st"
    by auto
  then show ?thesis by simp
qed


section \<open>Facts about the eligibility check\<close>

lemma both_conditions:
  assumes "i < length w"
  shows "(map (\<lambda>v. v > 0)
               (map2 (*)
                  (map (\<lambda>c. (of_bool (P c) * 1 :: int)) (map (\<lambda>s. s ! am) w))
                  (map (\<lambda>c. (of_bool (Q c) * 1 :: int)) (map (\<lambda>s. s ! sm) w)))) ! i
         \<longleftrightarrow> Q (w ! i ! sm) \<and> P (w ! i ! am)"
  using assms by simp

lemma sampling_idx_Inr:
  assumes "sampling_idx self w = Inr idx"
  shows "\<exists>sm. list_index (TimeSeriesLoader.t_cols self) ''sample_mask'' = Inr sm \<and>
           sm < n_channels (ts_dataset self) \<and>
           (if complete_inputs self then
              (\<exists>am. list_index (TimeSeriesLoader.t_cols self) ''available_mask'' = Inr am \<and>
                 am < n_channels (ts_dataset self) \<and>
                 (\<forall>i. i \<in> set idx \<longleftrightarrow> i < length w \<and>
                    sum_list (slice_from_neg (w ! i ! sm) (output_size self))
                      = real (output_size self) \<and>
                    sum_list (slice_to_neg (w ! i ! am) (output_size self))
                      = of_int (int (windows_size self) - int (output_size self))))
            else
              (\<forall>i. i \<in> set idx \<longleftrightarrow> i < length w \<and>
                    sum_list (slice_from_neg (w ! i ! sm) (output_size self))
                      = real (output_size self)))"
proof -
  from assms obtain sm where sm: "list_index (TimeSeriesLoader.t_cols self) ''sample_mask'' = Inr sm"
    by (auto simp: sampling_idx_def Let_def split: sum.splits)
  from assms sm have smn: "sm < n_channels (ts_dataset self)"
    by (auto simp: sampling_idx_def Let_def select_channel_def split: sum.splits if_splits)
  show ?thesis
  proof (cases "complete_inputs self")
    case False
    with assms sm smn have
      "idx = argwhere (map (\<lambda>v. v \<noteq> 0) (map (\<lambda>c. (of_bool (sum_list (slice_from_neg c (output_size self))
                                         = real (output_size self)) * 1 :: int)) (map (\<lambda>s. s ! sm) w)))"
      by (auto simp: sampling_idx_def Let_def select_channel_def)
    then have "\<forall>i. i \<in> set idx \<longleftrightarrow> i < length w \<and>
                    sum_list (slice_from_neg (w ! i ! sm) (output_size self))
                      = real (output_size self)"
      by (auto simp: set_argwhere)
    with sm smn False show ?thesis by auto
  next
    case True
    from assms sm smn True obtain am where
      am: "list_index (TimeSeriesLoader.t_cols self) ''available_mask'' = Inr am"
      by (auto simp: sampling_idx_def Let_def select_channel_def split: sum.splits)
    from assms sm smn True am have amn: "am < n_channels (ts_dataset self)"
      by (auto simp: sampling_idx_def Let_def select_channel_def split: sum.splits if_splits)
    from assms sm smn True am amn have
      "idx = argwhere (map (\<lambda>v. v > 0)
               (map2 (*)
                  (map (\<lambda>c. (of_bool (sum_list (slice_to_neg c (output_size self))
                                = of_int (int (windows_size self) - int (output_size self))) * 1 :: int))
                       (map (\<lambda>s. s ! am) w))
                  (map (\<lambda>c. (of_bool (sum_list (slice_from_neg c (output_size self))
                                         = real (output_size self)) * 1 :: int))
                       (map (\<lambda>s. s ! sm) w))))"
      by (auto simp: sampling_idx_def Let_def select_channel_def)
    then have "\<forall>i. i \<in> set idx \<longleftrightarrow> i < length w \<and>
                    sum_list (slice_from_neg (w ! i ! sm) (output_size self))
                      = real (output_size self) \<and>
                    sum_list (slice_to_neg (w ! i ! am) (output_size self))
                      = of_int (int (windows_size self) - int (output_size self))"
      using both_conditions[of _ w
              "\<lambda>c. sum_list (slice_to_neg c (output_size self))
                                = of_int (int (windows_size self) - int (output_size self))" am
              "\<lambda>c. sum_list (slice_from_neg c (output_size self)) = real (output_size self)" sm]
      by (simp only: set_argwhere length_map length_zip min.idem) blast
    with sm smn True am amn show ?thesis by auto
  qed
qed

lemma get_sampleable_windows_idxs_Inr:
  "get_sampleable_windows_idxs self w = Inr idx \<longleftrightarrow> sampling_idx self w = Inr idx \<and> idx \<noteq> []"
  by (auto simp: get_sampleable_windows_idxs_def split: sum.splits if_splits)

lemma sampling_idx_errors:
  "sampling_idx self w = Inl e \<Longrightarrow> e \<in> {ValueError, IndexError}"
  by (auto simp: sampling_idx_def Let_def split: sum.splits if_splits
           dest: list_index_errors select_channel_errors)

lemma sampling_idx_argwhere:
  assumes "sampling_idx self w = Inr idx"
  shows "\<exists>cond. idx = argwhere cond \<and> length cond = length w"
  using assms
  by (auto simp: sampling_idx_def Let_def select_channel_def split: sum.splits if_splits)

lemma get_sampleable_windows_idxs_positions:
  assumes "get_sampleable_windows_idxs self w = Inr elig"
  shows "elig \<noteq> []" and "distinct elig" and "\<forall>i \<in> set elig. i < length w"
proof -
  from assms have s: "sampling_idx self w = Inr elig" and n: "elig \<noteq> []"
    by (simp_all add: get_sampleable_windows_idxs_Inr)
  from sampling_idx_argwhere[OF s] obtain cond where
    c: "elig = argwhere cond" "length cond = length w" by blast
  show "elig \<noteq> []" by (rule n)
  show "distinct elig" unfolding c(1) by (rule distinct_argwhere)
  show "\<forall>i \<in> set elig. i < length w" unfolding c(1) using c(2) by (simp add: set_argwhere)
qed


section \<open>Facts about sampling and batches\<close>

lemma choice_replace_Inr:
  assumes "choice_replace a n g = (Inr xs, g')"
  shows "length xs = n \<and> set xs \<subseteq> set a \<and> g' = advance n g"
proof (cases "a = []")
  case True
  with assms show ?thesis by (auto simp: choice_replace_def split: if_splits)
next
  case False
  then have "a ! (g i mod length a) \<in> set a" for i by simp
  with assms False show ?thesis by (auto simp: choice_replace_def)
qed

lemma choice_replace_total:
  assumes "a \<noteq> []"
  shows "\<exists>xs. choice_replace a n g = (Inr xs, advance n g) \<and> length xs = n \<and> set xs \<subseteq> set a"
proof -
  from assms have "choice_replace a n g =
      (Inr (map (\<lambda>i. a ! (g i mod length a)) [0..<n]), advance n g)"
    by (simp add: choice_replace_def)
  with choice_replace_Inr[OF this] show ?thesis by blast
qed

lemma choice_replace_onto:
  assumes "set xs \<subseteq> set a"
  shows "\<exists>g. fst (choice_replace a (length xs) g) = Inr xs"
proof (cases "a = []")
  case True
  with assms show ?thesis by (simp add: choice_replace_def)
next
  case False
  have "\<forall>i < length xs. \<exists>j < length a. a ! j = xs ! i"
    using assms by (metis in_set_conv_nth nth_mem subsetD)
  then obtain f where f: "\<forall>i < length xs. f i < length a \<and> a ! f i = xs ! i"
    by metis
  have "map (\<lambda>i. a ! (f i mod length a)) [0..<length xs] = xs"
    using f by (intro nth_equalityI) simp_all
  with False show ?thesis by (auto simp: choice_replace_def intro: exI[of _ f])
qed

lemma selects_has_size:
  "selects self windows s_mat ts_idxs positions b \<Longrightarrow> has_size b (length positions)"
  by (auto simp: selects_def has_size_def batch_of_def rows_at_def split: sum.splits)

lemma parse_batch_Inr:
  assumes "parse_batch self windows s_mat ts_idxs positions = Inr b"
  shows "selects self windows s_mat ts_idxs positions b"
    and "\<forall>i \<in> set positions. i < length windows \<and> i < length s_mat \<and> i < length ts_idxs"
proof -
  from assms have w: "\<forall>i \<in> set positions. i < length windows"
    by (auto simp: parse_batch_def Let_def take_rows_nat split: sum.splits if_splits)
  from assms w have s: "\<forall>i \<in> set positions. i < length s_mat"
    by (auto simp: parse_batch_def Let_def take_rows_nat split: sum.splits if_splits)
  from assms w s have t: "\<forall>i \<in> set positions. i < length ts_idxs"
    by (auto simp: parse_batch_def Let_def take_rows_nat split: sum.splits if_splits)
  from w s t show "\<forall>i \<in> set positions. i < length windows \<and> i < length s_mat \<and> i < length ts_idxs"
    by blast
  from assms w s t show "selects self windows s_mat ts_idxs positions b"
    by (auto simp: parse_batch_def Let_def take_rows_nat selects_def batch_of_def
          select_channel_def split: sum.splits if_splits)
qed

lemma parse_batch_errors:
  "parse_batch self windows s_mat ts_idxs widx = Inl e \<Longrightarrow> e \<in> {ValueError, IndexError}"
  by (auto simp: parse_batch_def Let_def split: sum.splits
           dest: list_index_errors select_channel_errors take_rows_errors)

lemma windows_batch_Inr:
  assumes "windows_batch self index g = (Inr b, g')"
  shows "\<exists>windows s_mat ts_idxs elig positions.
           create_windows_tensor self (Some index) = Inr (windows, s_mat, ts_idxs) \<and>
           get_sampleable_windows_idxs self windows = Inr elig \<and>
           (if shuffle self then choice_replace elig (batch_size self) g = (Inr positions, g')
            else positions = elig \<and> g' = g) \<and>
           parse_batch self windows s_mat ts_idxs positions = Inr b"
  using assms
  by (auto simp: windows_batch_def split: sum.splits prod.splits if_splits)

lemma windows_batch_AssertionError:
  "fst (windows_batch self index g) = Inl AssertionError \<longleftrightarrow>
     (\<exists>windows s_mat ts_idxs.
        create_windows_tensor self (Some index) = Inr (windows, s_mat, ts_idxs) \<and>
        sampling_idx self windows = Inr [])"
proof (cases "create_windows_tensor self (Some index)")
  case (Inl e)
  with create_windows_tensor_errors[OF Inl] show ?thesis
    by (auto simp: windows_batch_def)
next
  case (Inr r)
  obtain windows s_mat ts_idxs where r: "r = (windows, s_mat, ts_idxs)" by (cases r) auto
  show ?thesis
  proof (cases "sampling_idx self windows")
    case (Inl e)
    with sampling_idx_errors[OF Inl] Inr r show ?thesis
      by (auto simp: windows_batch_def get_sampleable_windows_idxs_def)
  next
    case si: (Inr idx)
    show ?thesis
    proof (cases "idx = []")
      case True
      with Inr r si show ?thesis
        by (simp add: windows_batch_def get_sampleable_windows_idxs_def)
    next
      case False
      have g: "get_sampleable_windows_idxs self windows = Inr idx"
        using False si by (simp add: get_sampleable_windows_idxs_def)
      have "fst (windows_batch self index g) \<noteq> Inl AssertionError"
      proof (cases "shuffle self")
        case True
        have c: "choice_replace idx (batch_size self) g =
                   (Inr (map (\<lambda>i. idx ! (g i mod length idx)) [0..<batch_size self]),
                    advance (batch_size self) g)"
          using False by (simp add: choice_replace_def)
        show ?thesis
          using parse_batch_errors[of self windows s_mat ts_idxs
                  "map (\<lambda>i. idx ! (g i mod length idx)) [0..<batch_size self]"]
          by (cases "parse_batch self windows s_mat ts_idxs
                  (map (\<lambda>i. idx ! (g i mod length idx)) [0..<batch_size self])")
             (auto simp: windows_batch_def Inr r g True c)
      next
        case nsh: False
        show ?thesis
          using parse_batch_errors[of self windows s_mat ts_idxs idx]
          by (cases "parse_batch self windows s_mat ts_idxs idx")
             (auto simp: windows_batch_def Inr r g nsh)
      qed
      with Inr r si False show ?thesis by simp
    qed
  qed
qed

lemma windows_batch_AssertionError_rng:
  assumes "fst (windows_batch self index g) = Inl AssertionError"
  shows "snd (windows_batch self index g) = g"
proof -
  from assms obtain windows s_mat ts_idxs where
    "create_windows_tensor self (Some index) = Inr (windows, s_mat, ts_idxs)"
    "sampling_idx self windows = Inr []"
    unfolding windows_batch_AssertionError by blast
  then show ?thesis
    by (simp add: windows_batch_def get_sampleable_windows_idxs_def)
qed

lemma windows_batch_no_shuffle:
  assumes "\<not> shuffle self"
  shows "windows_batch self index g = (fst (windows_batch self index g0), g)"
  using assms
  by (auto simp: windows_batch_def split: sum.splits prod.splits)

lemma call_getitem_loader: "loader (snd (call_getitem index st)) = loader st"
  by (simp add: call_getitem_def split: prod.splits)

lemma call_getitem_fst: "fst (call_getitem index st) = fst (windows_batch (loader st) index (np_random st))"
  by (simp add: call_getitem_def getitem_def split: prod.splits)

lemma call_getitem_snd:
  "snd (call_getitem index st) = st\<lparr>np_random := snd (windows_batch (loader st) index (np_random st))\<rparr>"
  by (simp add: call_getitem_def getitem_def split: prod.splits)


lemma windows_batch_eq:
  assumes "create_windows_tensor self (Some index) = Inr (windows, s_mat, ts_idxs)"
    and "get_sampleable_windows_idxs self windows = Inr elig"
  shows "windows_batch self index g =
           (if shuffle self
            then (parse_batch self windows s_mat ts_idxs
                    (map (\<lambda>i. elig ! (g i mod length elig)) [0..<batch_size self]),
                  advance (batch_size self) g)
            else (parse_batch self windows s_mat ts_idxs elig, g))"
proof -
  have ne: "elig \<noteq> []" by (rule get_sampleable_windows_idxs_positions(1)[OF assms(2)])
  show ?thesis
  proof (cases "shuffle self")
    case True
    have c: "choice_replace elig (batch_size self) g =
               (Inr (map (\<lambda>i. elig ! (g i mod length elig)) [0..<batch_size self]),
                advance (batch_size self) g)"
      using ne by (simp add: choice_replace_def)
    show ?thesis
      unfolding windows_batch_def assms sum.case prod.case
      by (simp only: True if_True c prod.case sum.case)
  next
    case False
    show ?thesis
      unfolding windows_batch_def assms sum.case prod.case
      by (simp only: False if_False prod.case sum.case)
  qed
qed

lemma parse_batch_total:
  assumes "list_index (TimeSeriesLoader.t_cols self) ''y'' = Inr yi"
    and "yi < n_channels (ts_dataset self)"
    and "list_index (TimeSeriesLoader.t_cols self) ''available_mask'' = Inr ai"
    and "ai < n_channels (ts_dataset self)"
    and "list_index (TimeSeriesLoader.t_cols self) ''sample_mask'' = Inr si"
    and "si < n_channels (ts_dataset self)"
    and "\<forall>i \<in> set positions. i < length windows \<and> i < length s_mat \<and> i < length ts_idxs"
  shows "parse_batch self windows s_mat ts_idxs positions
           = Inr (batch_of yi ai si windows s_mat ts_idxs positions)"
  using assms
  by (simp add: parse_batch_def Let_def take_rows_nat select_channel_def batch_of_def)

lemma columns_present_iff:
  "columns_present self \<longleftrightarrow>
     (\<exists>yi ai si. list_index (TimeSeriesLoader.t_cols self) ''y'' = Inr yi \<and>
        yi < n_channels (ts_dataset self) \<and>
        list_index (TimeSeriesLoader.t_cols self) ''available_mask'' = Inr ai \<and>
        ai < n_channels (ts_dataset self) \<and>
        list_index (TimeSeriesLoader.t_cols self) ''sample_mask'' = Inr si \<and>
        si < n_channels (ts_dataset self))"
  by (auto simp: columns_present_def split: sum.splits)

lemma parse_batch_returns:
  assumes "columns_present self"
    and "\<forall>i \<in> set positions. i < length windows \<and> i < length s_mat \<and> i < length ts_idxs"
  shows "\<exists>b. parse_batch self windows s_mat ts_idxs positions = Inr b"
proof -
  from assms(1) obtain yi ai si where
    "list_index (TimeSeriesLoader.t_cols self) ''y'' = Inr yi"
    "yi < n_channels (ts_dataset self)"
    "list_index (TimeSeriesLoader.t_cols self) ''available_mask'' = Inr ai"
    "ai < n_channels (ts_dataset self)"
    "list_index (TimeSeriesLoader.t_cols self) ''sample_mask'' = Inr si"
    "si < n_channels (ts_dataset self)"
    unfolding columns_present_iff by blast
  from parse_batch_total[OF this assms(2)] show ?thesis by blast
qed

lemma windows_batch_returns:
  assumes c: "create_windows_tensor self (Some index) = Inr (windows, s_mat, ts_idxs)"
    and e: "get_sampleable_windows_idxs self windows = Inr elig"
    and cols: "columns_present self"
    and dv: "length index dvd length windows"
  shows "\<exists>b. windows_batch self index g =
               (Inr b, if shuffle self then advance (batch_size self) g else g) \<and>
             has_size b (if shuffle self then batch_size self else length elig)"
proof -
  note p = get_sampleable_windows_idxs_positions[OF e]
  note l = create_windows_tensor_lengths[OF c]
  from dv have ls: "length s_mat = length windows" "length ts_idxs = length windows"
    using l by simp_all
  let ?pos = "if shuffle self
              then map (\<lambda>i. elig ! (g i mod length elig)) [0..<batch_size self] else elig"
  have sub: "set ?pos \<subseteq> set elig" using p(1) by auto
  have "\<forall>i \<in> set ?pos. i < length windows \<and> i < length s_mat \<and> i < length ts_idxs"
  proof
    fix i assume "i \<in> set ?pos"
    with sub have "i \<in> set elig" by blast
    with p(3) have "i < length windows" by blast
    with ls show "i < length windows \<and> i < length s_mat \<and> i < length ts_idxs" by simp
  qed
  from parse_batch_returns[OF cols this] obtain b where
    b: "parse_batch self windows s_mat ts_idxs ?pos = Inr b" by blast
  from selects_has_size[OF parse_batch_Inr(1)[OF b]] have "has_size b (length ?pos)" .
  then have hs: "has_size b (if shuffle self then batch_size self else length elig)"
    by (simp split: if_splits)
  have "windows_batch self index g =
          (Inr b, if shuffle self then advance (batch_size self) g else g)"
    using b unfolding windows_batch_eq[OF c e] by (simp split: if_splits)
  with hs show ?thesis by blast
qed


section \<open>Facts about iteration\<close>

lemma iter_no_series:
  assumes "sampleable_ts_idxs self = []" "n_sampleable_ts self = 0" "n_batches self = 0"
  shows "iter self g = ([], None, g)"
  using assms by (simp add: iter_def choice_no_replace_def advance_0)

lemma empty_sampleable_set_no_batches:
  assumes "init ds mdl wsl isz osz freq bsz ci shf lsc nspb vrb = Inr self"
    and "sampleable_ts_idxs self = []"
  shows "n_batches self = 0 \<and> (\<forall>g. iter self g = ([], None, g))"
proof -
  have n: "n_sampleable_ts self = 0" using init_Inr(21)[OF assms(1)] assms(2) by simp
  have b: "n_batches self = 0" using init_Inr(22)[OF assms(1)] n by simp
  from iter_no_series[OF assms(2) n b] b show ?thesis by blast
qed









lemma run_chunks_complete:
  "run_chunks self cs g = (bs, None, g') \<Longrightarrow> length bs = length cs"
  by (induction cs arbitrary: g bs) (auto split: prod.splits sum.splits)








section \<open>The example, evaluated\<close>

lemma ex_store_simps:
  "TimeSeriesDataset.t_cols ex_store = [''y'', ''available_mask'', ''sample_mask'']"
  "TimeSeriesDataset.f_idxs ex_store = []"
  "n_series ex_store = 3" "n_channels ex_store = 3" "ts_tensor ex_store = ex_tensor"
  "s_matrix ex_store = [[10], [20], [30]]"
  "get_filtered_ts_tensor ex_store osz wsl (Some is) = map (\<lambda>i. ex_tensor ! nat i) is"
  "get_filtered_ts_tensor ex_store osz wsl None = ex_tensor"
  by (simp_all add: ex_store_def)

lemma ex_loader_simps:
  "ts_dataset (ex_loader ci shf) = ex_store"
  "output_size (ex_loader ci shf) = 1"
  "input_size (ex_loader ci shf) = 1"
  "window_sampling_limit (ex_loader ci shf) = 3"
  "windows_size (ex_loader ci shf) = 2"
  "padding (ex_loader ci shf) = (1, 1)"
  "idx_to_sample_freq (ex_loader ci shf) = 1"
  "batch_size (ex_loader ci shf) = 2"
  "complete_inputs (ex_loader ci shf) = ci"
  "shuffle (ex_loader ci shf) = shf"
  "n_series_per_batch (ex_loader ci shf) = 1"
  "TimeSeriesLoader.t_cols (ex_loader ci shf) = [''y'', ''available_mask'', ''sample_mask'']"
  "sampleable_ts_idxs (ex_loader ci shf) = (if ci then [0] else [0, 1])"
  "n_sampleable_ts (ex_loader ci shf) = (if ci then 1 else 2)"
  "n_batches (ex_loader ci shf) = (if ci then 1 else 2)"
  by (simp_all add: ex_loader_def)

lemma ex_loader_h0_simps:
  "ts_dataset ex_loader_h0 = ex_store"
  "output_size ex_loader_h0 = 0"
  "window_sampling_limit ex_loader_h0 = 3"
  "windows_size ex_loader_h0 = 2"
  "padding ex_loader_h0 = (2, 0)"
  "idx_to_sample_freq ex_loader_h0 = 1"
  "complete_inputs ex_loader_h0 = False"
  "TimeSeriesLoader.t_cols ex_loader_h0 = [''y'', ''available_mask'', ''sample_mask'']"
  by (simp_all add: ex_loader_h0_def)

lemma ex_init: "init ex_store ''nbeats'' 3 1 1 1 2 ci shf None (Some 1) False = Inr (ex_loader ci shf)"
  by (simp add: init_unfold init_self_def effective_n_series_per_batch_def
      define_attributes_by_model_def define_sampleable_ts_idxs_def select_channel_def
      ex_store_simps ex_tensor_def ex_loader_def argwhere_Cons argwhere_Nil Let_def)

lemma ex_init_h0:
  "init ex_store ''nbeats'' 3 2 0 1 2 False False None (Some 1) False = Inr ex_loader_h0"
  by (simp add: init_unfold init_self_def effective_n_series_per_batch_def
      define_attributes_by_model_def define_sampleable_ts_idxs_def select_channel_def
      ex_store_simps ex_tensor_def ex_loader_h0_def argwhere_Cons argwhere_Nil Let_def)

lemmas ex_eval = create_windows_tensor_def Let_def ex_loader_simps ex_store_simps
        unfold_last_def constant_pad_def ex_tensor_def windows_of_def upt_conv_Cons
        reshape_windows_def permute_0213_def chunks_def take_rows_def in_bounds_def
        wrap_index_def repeat_rows_def

lemma ex_create_windows:
  "create_windows_tensor (ex_loader ci shf) (Some [0, 1]) =
     Inr (ex_windows, [[10], [10], [10], [10], [20], [20], [20], [20]], [0, 0, 0, 0, 1, 1, 1, 1])"
  by (simp add: ex_eval ex_windows_def div_if)

lemma ex_create_windows_0:
  "create_windows_tensor (ex_loader ci shf) (Some [0]) =
     Inr (ex_windows_0, [[10], [10], [10], [10]], [0, 0, 0, 0])"
  by (simp add: ex_eval ex_windows_0_def)


lemma ex_create_windows_2:
  "create_windows_tensor (ex_loader ci shf) (Some [2]) =
     Inr (ex_windows_2, [[30], [30], [30], [30]], [2, 2, 2, 2])"
  by (simp add: ex_eval ex_windows_2_def)

lemma ex_create_windows_None:
  "create_windows_tensor (ex_loader ci shf) None = Inl AttributeError"
  by (simp add: create_windows_tensor_def Let_def ex_loader_simps ex_store_simps
        unfold_last_def constant_pad_def ex_tensor_def windows_of_def upt_conv_Cons
        reshape_windows_def permute_0213_def chunks_def)

lemmas ex_eval_idx = sampling_idx_def get_sampleable_windows_idxs_def select_channel_def
  slice_from_neg_def slice_to_neg_def argwhere_Cons argwhere_Nil Let_def ex_loader_simps
  ex_store_simps

lemma ex_sampling_idx_2: "sampling_idx (ex_loader False shf) ex_windows_2 = Inr []"
  by (simp add: ex_eval_idx ex_windows_2_def)

lemma ex_sampleable_0: "get_sampleable_windows_idxs (ex_loader False shf) ex_windows_0 = Inr [0, 1, 2]"
  by (simp add: ex_eval_idx ex_windows_0_def)

lemma ex_sampleable_0_ci: "get_sampleable_windows_idxs (ex_loader True shf) ex_windows_0 = Inr [1, 2]"
  by (simp add: ex_eval_idx ex_windows_0_def)


lemma ex_parse_batch_0:
  "parse_batch (ex_loader ci shf) ex_windows_0 [[10], [10], [10], [10]] [0, 0, 0, 0] [0, 1, 2]
     = Inr ex_batch_0"
  by (simp add: parse_batch_def take_rows_def in_bounds_def wrap_index_def select_channel_def
        py_slice_def ex_loader_simps ex_store_simps ex_windows_0_def ex_batch_0_def Let_def)


lemma ex_parse_batch_shuffled:
  "parse_batch (ex_loader ci shf) ex_windows_0 [[10], [10], [10], [10]] [0, 0, 0, 0] [0, 1]
     = Inr ex_batch_shuffled"
  by (simp add: parse_batch_def take_rows_def in_bounds_def wrap_index_def select_channel_def
        py_slice_def ex_loader_simps ex_store_simps ex_windows_0_def ex_batch_shuffled_def Let_def)

lemma ex_choice:
  "choice_replace [0, 1, 2 :: nat] 2 (\<lambda>i. i) = (Inr [0, 1], advance 2 (\<lambda>i. i))"
  by (simp add: choice_replace_def upt_conv_Cons)

lemma ex_windows_batch_0:
  "windows_batch (ex_loader False False) [0] g = (Inr ex_batch_0, g)"
  unfolding windows_batch_def ex_create_windows_0 sum.case prod.case ex_sampleable_0
    ex_loader_simps if_False ex_parse_batch_0
  by (rule refl)


lemma ex_windows_batch_shuffled:
  "windows_batch (ex_loader False True) [0] (\<lambda>i. i) = (Inr ex_batch_shuffled, advance 2 (\<lambda>i. i))"
  unfolding windows_batch_def ex_create_windows_0 sum.case prod.case ex_sampleable_0
    ex_loader_simps if_True ex_choice ex_parse_batch_shuffled
  by (rule refl)


lemma ex_loader_big_simps:
  "ts_dataset ex_loader_big = ex_store"
  "output_size ex_loader_big = 1"
  "window_sampling_limit ex_loader_big = 3"
  "windows_size ex_loader_big = 2"
  "padding ex_loader_big = (1, 1)"
  "idx_to_sample_freq ex_loader_big = 1"
  "batch_size ex_loader_big = 5"
  "\<not> complete_inputs ex_loader_big"
  "shuffle ex_loader_big"
  "TimeSeriesLoader.t_cols ex_loader_big = [''y'', ''available_mask'', ''sample_mask'']"
  by (simp_all add: ex_loader_big_def ex_loader_def)

lemma ex_init_big:
  "init ex_store ''nbeats'' 3 1 1 1 5 False True None (Some 1) False = Inr ex_loader_big"
  by (simp add: init_unfold init_self_def effective_n_series_per_batch_def
      define_attributes_by_model_def define_sampleable_ts_idxs_def select_channel_def
      ex_store_simps ex_tensor_def ex_loader_big_def ex_loader_def argwhere_Cons argwhere_Nil
      Let_def)

lemma ex_create_windows_big:
  "create_windows_tensor ex_loader_big (Some [1]) =
     Inr (ex_windows_1, [[20], [20], [20], [20]], [1, 1, 1, 1])"
  by (simp add: ex_eval ex_loader_big_simps ex_windows_1_def)

lemma ex_sampleable_big:
  "get_sampleable_windows_idxs ex_loader_big ex_windows_1 = Inr [1, 2]"
  by (simp add: ex_eval_idx ex_loader_big_simps ex_windows_1_def)

lemma ex_positions_big:
  "map (\<lambda>i. [1, 2 :: nat] ! (i mod length [1, 2 :: nat])) [0..<5] = [1, 2, 1, 2, 1]"
  by (simp add: upt_conv_Cons mod_Suc numeral_2_eq_2)

lemma ex_parse_batch_big:
  "parse_batch ex_loader_big ex_windows_1 [[20], [20], [20], [20]] [1, 1, 1, 1] [1, 2, 1, 2, 1]
     = Inr ex_batch_big"
  by (simp add: parse_batch_def take_rows_def in_bounds_def wrap_index_def select_channel_def
        py_slice_def ex_loader_big_simps ex_store_simps ex_windows_1_def ex_batch_big_def Let_def)

lemma ex_columns_big: "columns_present ex_loader_big"
  by (simp add: columns_present_def ex_loader_big_simps ex_store_simps)

















section \<open>Window-level eligibility\<close>

text \<open>
  Claim C1, amended.  For a loader with \<open>1 \<le> output_size \<le> windows_size\<close> (the second
  inequality holds for every loader the constructor returns) and a window tensor of shape
  (windows, \<open>n_channels\<close>, \<open>windows_size\<close>), the positions returned by
  \<^verbatim>\<open>_get_sampleable_windows_idxs\<close> are exactly the windows whose \<open>sample_mask\<close> channel
  sums to \<open>output_size\<close> over the last \<open>output_size\<close> steps and, when \<open>complete_inputs\<close>
  is set, whose \<open>available_mask\<close> channel also sums to \<open>windows_size - output_size\<close> over
  the first \<open>windows_size - output_size\<close> steps; without \<open>complete_inputs\<close> only the first
  condition counts.
\<close>

theorem eligible_windows_iff:
  assumes pos: "0 < output_size self" and le: "output_size self \<le> windows_size self"
    and rect: "rectangular (length ws) (n_channels (ts_dataset self)) (windows_size self) ws"
    and ret: "get_sampleable_windows_idxs self ws = Inr idx"
  shows "\<forall>i. i \<in> set idx \<longleftrightarrow> i < length ws \<and> window_eligible self (ws ! i)"
proof -
  from rect have shape: "\<forall>w \<in> set ws. length w = n_channels (ts_dataset self) \<and>
                  (\<forall>c \<in> set w. length c = windows_size self)"
    by (simp add: rectangular_def)
  from ret have si: "sampling_idx self ws = Inr idx"
    by (simp add: get_sampleable_windows_idxs_Inr)
  from sampling_idx_Inr[OF si] obtain sm where
    sm: "list_index (TimeSeriesLoader.t_cols self) ''sample_mask'' = Inr sm"
    and smn: "sm < n_channels (ts_dataset self)"
    and rest: "(if complete_inputs self then
              (\<exists>am. list_index (TimeSeriesLoader.t_cols self) ''available_mask'' = Inr am \<and>
                 am < n_channels (ts_dataset self) \<and>
                 (\<forall>i. i \<in> set idx \<longleftrightarrow> i < length ws \<and>
                    sum_list (slice_from_neg (ws ! i ! sm) (output_size self))
                      = real (output_size self) \<and>
                    sum_list (slice_to_neg (ws ! i ! am) (output_size self))
                      = of_int (int (windows_size self) - int (output_size self))))
            else
              (\<forall>i. i \<in> set idx \<longleftrightarrow> i < length ws \<and>
                    sum_list (slice_from_neg (ws ! i ! sm) (output_size self))
                      = real (output_size self)))"
    by blast
  have from_neg: "slice_from_neg c (output_size self) = last_steps (output_size self) c" for c :: "val list"
    using pos by (simp add: slice_from_neg_def last_steps_def)
  have len: "length (ws ! i ! c) = windows_size self"
    if "i < length ws" "c < n_channels (ts_dataset self)" for i c
  proof -
    from that(1) have "ws ! i \<in> set ws" by simp
    with shape have l: "length (ws ! i) = n_channels (ts_dataset self)"
      and a: "\<forall>c \<in> set (ws ! i). length c = windows_size self" by auto
    from l that(2) have "ws ! i ! c \<in> set (ws ! i)" by simp
    with a show ?thesis by blast
  qed
  have to_neg: "slice_to_neg (ws ! i ! c) (output_size self)
                  = first_steps (windows_size self - output_size self) (ws ! i ! c)"
    if "i < length ws" "c < n_channels (ts_dataset self)" for i c
    using pos len[OF that] by (simp add: slice_to_neg_def first_steps_def)
  show ?thesis
  proof (cases "complete_inputs self")
    case False
    with rest sm show ?thesis
      by (simp add: window_eligible_def from_neg)
  next
    case True
    with rest obtain am where
      am: "list_index (TimeSeriesLoader.t_cols self) ''available_mask'' = Inr am"
      and amn: "am < n_channels (ts_dataset self)"
      and i: "\<forall>i. i \<in> set idx \<longleftrightarrow> i < length ws \<and>
                    sum_list (slice_from_neg (ws ! i ! sm) (output_size self))
                      = real (output_size self) \<and>
                    sum_list (slice_to_neg (ws ! i ! am) (output_size self))
                      = of_int (int (windows_size self) - int (output_size self))"
      by auto
    show ?thesis
    proof (intro allI)
      fix j
      show "j \<in> set idx \<longleftrightarrow> j < length ws \<and> window_eligible self (ws ! j)"
      proof (cases "j < length ws")
        case False
        with i show ?thesis by blast
      next
        case j: True
        from i j have "j \<in> set idx \<longleftrightarrow>
                    sum_list (slice_from_neg (ws ! j ! sm) (output_size self))
                      = real (output_size self) \<and>
                    sum_list (slice_to_neg (ws ! j ! am) (output_size self))
                      = of_int (int (windows_size self) - int (output_size self))"
          by blast
        then show ?thesis
          using j True
          by (simp add: window_eligible_def sm am from_neg to_neg[OF j amn] of_nat_diff[OF le])
      qed
    qed
  qed
qed

theorem eligible_windows_witness:
  "0 < output_size (ex_loader True False) \<and>
   output_size (ex_loader True False) \<le> windows_size (ex_loader True False) \<and>
   rectangular 4 3 2 ex_windows_0 \<and>
   get_sampleable_windows_idxs (ex_loader True False) ex_windows_0 = Inr [1, 2] \<and>
   window_eligible (ex_loader True False) (ex_windows_0 ! 1) \<and>
   window_eligible (ex_loader True False) (ex_windows_0 ! 2) \<and>
   \<not> window_eligible (ex_loader True False) (ex_windows_0 ! 0) \<and>
   \<not> window_eligible (ex_loader True False) (ex_windows_0 ! 3)"
proof -
  have a: "0 < output_size (ex_loader True False)"
    and b: "output_size (ex_loader True False) \<le> windows_size (ex_loader True False)"
    by (simp_all add: ex_loader_simps)
  have c: "rectangular (length ex_windows_0) (n_channels (ts_dataset (ex_loader True False)))
             (windows_size (ex_loader True False)) ex_windows_0"
    by (simp add: rectangular_def ex_windows_0_def ex_loader_simps ex_store_simps)
  have d: "get_sampleable_windows_idxs (ex_loader True False) ex_windows_0 = Inr [1, 2]"
    by (rule ex_sampleable_0_ci)
  have l: "length ex_windows_0 = 4" by (simp add: ex_windows_0_def)
  from eligible_windows_iff[OF a b c d] have
    "\<forall>i. i \<in> set [1, 2] \<longleftrightarrow> i < 4 \<and> window_eligible (ex_loader True False) (ex_windows_0 ! i)"
    unfolding l .
  from this[rule_format, of 0] this[rule_format, of 1] this[rule_format, of 2]
       this[rule_format, of 3] a b d c
  show ?thesis by (simp add: l ex_loader_simps ex_store_simps)
qed

text \<open>
  The claim fails as it stands for \<open>output_size = 0\<close>, a value the constructor accepts.
  The slice \<^verbatim>\<open>[-0:]\<close> is the whole window, so the check asks for a \<open>sample_mask\<close> that
  sums to zero over the whole window.  For series 0 of the example only the first window
  (pure padding) is returned, while window 2, whose last zero steps trivially sum to zero,
  is eligible in the words of the claim and is not returned.
\<close>

theorem zero_horizon_counterexample:
  "init ex_store ''nbeats'' 3 2 0 1 2 False False None (Some 1) False = Inr ex_loader_h0 \<and>
   create_windows_tensor ex_loader_h0 (Some [0]) =
     Inr (ex_windows_h0, [[10], [10], [10], [10]], [0, 0, 0, 0]) \<and>
   get_sampleable_windows_idxs ex_loader_h0 ex_windows_h0 = Inr [0] \<and>
   2 < length ex_windows_h0 \<and>
   window_eligible ex_loader_h0 (ex_windows_h0 ! 2) \<and>
   2 \<notin> set [0::nat]"
proof -
  have "create_windows_tensor ex_loader_h0 (Some [0]) =
     Inr (ex_windows_h0, [[10], [10], [10], [10]], [0, 0, 0, 0])"
    by (simp add: create_windows_tensor_def Let_def ex_loader_h0_simps ex_store_simps
        unfold_last_def constant_pad_def ex_tensor_def windows_of_def upt_conv_Cons
        reshape_windows_def permute_0213_def chunks_def take_rows_def in_bounds_def
        wrap_index_def repeat_rows_def ex_windows_h0_def numeral_2_eq_2)
  moreover have "get_sampleable_windows_idxs ex_loader_h0 ex_windows_h0 = Inr [0]"
    by (simp add: sampling_idx_def get_sampleable_windows_idxs_def select_channel_def
        slice_from_neg_def argwhere_Cons argwhere_Nil Let_def ex_loader_h0_simps
        ex_store_simps ex_windows_h0_def)
  moreover have "window_eligible ex_loader_h0 (ex_windows_h0 ! 2)"
    by (simp add: window_eligible_def ex_loader_h0_simps ex_windows_h0_def last_steps_def)
  moreover have "2 < length ex_windows_h0" by (simp add: ex_windows_h0_def)
  ultimately show ?thesis using ex_init_h0 by simp
qed

section \<open>Series-level eligibility\<close>

text \<open>
  Claim C2.  After a successful construction, a series index is in \<open>sampleable_ts_idxs\<close>
  exactly when it names a series of the full tensor whose \<open>sample_mask\<close> channel, summed
  over all time steps, is strictly greater than the threshold: \<open>windows_size\<close> when
  \<open>complete_inputs\<close> is set, \<open>output_size\<close> otherwise.  A series whose sum is at most the
  threshold is therefore never in the set, and \<open>n_sampleable_ts\<close> is the size of the set.
\<close>

theorem sampleable_ts_idxs_threshold:
  assumes "init ds mdl wsl isz osz freq bsz ci shf lsc nspb vrb = Inr self"
  shows "\<exists>c. list_index (TimeSeriesDataset.t_cols ds) ''sample_mask'' = Inr c \<and>
           n_sampleable_ts self = length (sampleable_ts_idxs self) \<and>
           (\<forall>i. i \<in> set (sampleable_ts_idxs self) \<longleftrightarrow>
                 i < length (ts_tensor ds) \<and>
                 sum_list (ts_tensor ds ! i ! c) >
                   real (if complete_inputs self then windows_size self else output_size self))"
proof -
  from init_Inr(6)[OF assms] obtain c where
    c: "list_index (TimeSeriesDataset.t_cols ds) ''sample_mask'' = Inr c"
    and s: "sampleable_ts_idxs self =
               argwhere (map (\<lambda>ser. sum_list (ser ! c) >
                          real (if ci then windows_size self else osz)) (ts_tensor ds))"
    by blast
  have f: "complete_inputs self = ci" "output_size self = osz"
    using init_Inr[OF assms] by simp_all
  have "\<forall>i. i \<in> set (sampleable_ts_idxs self) \<longleftrightarrow>
                 i < length (ts_tensor ds) \<and>
                 sum_list (ts_tensor ds ! i ! c) >
                   real (if complete_inputs self then windows_size self else output_size self)"
    unfolding s f by (auto simp: set_argwhere)
  with c init_Inr(21)[OF assms] show ?thesis by blast
qed

theorem sampleable_ts_idxs_threshold_witness:
  "init ex_store ''nbeats'' 3 1 1 1 2 True False None (Some 1) False = Inr (ex_loader True False) \<and>
   0 \<in> set (sampleable_ts_idxs (ex_loader True False)) \<and>
   sum_list (ts_tensor ex_store ! 0 ! 2) = 3 \<and>
   1 \<notin> set (sampleable_ts_idxs (ex_loader True False)) \<and>
   sum_list (ts_tensor ex_store ! 1 ! 2) = 2 \<and>
   windows_size (ex_loader True False) = 2"
proof -
  have h: "init ex_store ''nbeats'' 3 1 1 1 2 True False None (Some 1) False
             = Inr (ex_loader True False)"
    by (rule ex_init)
  from sampleable_ts_idxs_threshold[OF h] obtain c where
    c: "list_index (TimeSeriesDataset.t_cols ex_store) ''sample_mask'' = Inr c"
    and i: "\<And>i. i \<in> set (sampleable_ts_idxs (ex_loader True False)) \<longleftrightarrow>
                 i < length (ts_tensor ex_store) \<and>
                 sum_list (ts_tensor ex_store ! i ! c) >
                   real (if complete_inputs (ex_loader True False)
                         then windows_size (ex_loader True False)
                         else output_size (ex_loader True False))"
    by blast
  from c have c2: "c = 2" by (simp add: ex_store_simps)
  show ?thesis
    using h i[of 0] i[of 1] unfolding c2
    by (simp add: ex_store_simps ex_tensor_def ex_loader_def)
qed

section \<open>Size and content of a batch\<close>

text \<open>
  Claim C3.  Let the windowing engine have returned the windows of a series subset and let
  the eligibility check have returned their eligible set, which is then non-empty and free
  of repetitions.  Under \<open>shuffle\<close> the indexing operation draws \<open>batch_size\<close> positions,
  draw \<open>i\<close> being the eligible position at the \<open>i\<close>-th raw output of the random source
  modulo the size of the eligible set, and its result is the batch of the windows at
  exactly these positions: the draw itself raises nothing, whatever \<open>batch_size\<close> is
  compared with the size of the eligible set, and it moves the random source by
  \<open>batch_size\<close> outputs.  Without \<open>shuffle\<close> the result is the batch of the eligible set
  itself, in order, and the random source is not touched.  Every batch that is produced
  selects the windows, static rows and series indices at these positions and has as many
  windows as there are positions: \<open>batch_size\<close> under \<open>shuffle\<close>, the eligible count
  otherwise.  When the three named channels are present and the windows divide evenly
  among the requested series (as they do for a store that hands out one series of equal
  length per index entry, lemma \<open>create_windows_tensor_divides\<close>), a batch is produced,
  also when \<open>batch_size\<close> exceeds the size of the eligible set.  The draw is uniform and with
  replacement: every eligible position is the image of the same number of raw outputs in
  every range of whole periods, every list of eligible positions, repetitions included,
  is the outcome for some state of the random source, and it comes from exactly one
  vector of residues, so equally likely independent residues give equally likely outcomes.
  (The distribution of the raw outputs is that of numpy's generator, a parameter here.)
\<close>

theorem windows_batch_size:
  assumes "create_windows_tensor self (Some index) = Inr (windows, s_mat, ts_idxs)"
    and "get_sampleable_windows_idxs self windows = Inr elig"
  shows "elig \<noteq> [] \<and> distinct elig \<and>
         (shuffle self \<longrightarrow>
            windows_batch self index g =
              (parse_batch self windows s_mat ts_idxs
                 (map (\<lambda>i. elig ! (g i mod length elig)) [0..<batch_size self]),
               advance (batch_size self) g) \<and>
            set (map (\<lambda>i. elig ! (g i mod length elig)) [0..<batch_size self]) \<subseteq> set elig) \<and>
         (\<not> shuffle self \<longrightarrow>
            windows_batch self index g = (parse_batch self windows s_mat ts_idxs elig, g)) \<and>
         (\<forall>b g'. windows_batch self index g = (Inr b, g') \<longrightarrow>
            (\<exists>positions.
               selects self windows s_mat ts_idxs positions b \<and>
               has_size b (length positions) \<and>
               (if shuffle self
                then positions = map (\<lambda>i. elig ! (g i mod length elig)) [0..<batch_size self] \<and>
                     length positions = batch_size self \<and> g' = advance (batch_size self) g
                else positions = elig \<and> g' = g))) \<and>
         (columns_present self \<and> length index dvd length windows \<longrightarrow>
            (\<exists>b. windows_batch self index g =
                    (Inr b, if shuffle self then advance (batch_size self) g else g) \<and>
                  has_size b (if shuffle self then batch_size self else length elig))) \<and>
         (\<forall>e \<in> set elig. \<forall>m.
            card {r. r < length elig * m \<and> elig ! (r mod length elig) = e} = m) \<and>
         (\<forall>draws. set draws \<subseteq> set elig \<longrightarrow>
            (\<exists>g0. fst (choice_replace elig (length draws) g0) = Inr draws) \<and>
            (\<exists>!r. length r = length draws \<and> set r \<subseteq> {..<length elig} \<and>
                   map (\<lambda>j. elig ! j) r = draws))"
proof -
  note c = assms(1) and e = assms(2)
  note p = get_sampleable_windows_idxs_positions[OF e]
  let ?draw = "map (\<lambda>i. elig ! (g i mod length elig)) [0..<batch_size self]"
  have sub: "set ?draw \<subseteq> set elig" using p(1) by auto
  have sh: "shuffle self \<longrightarrow>
            windows_batch self index g =
              (parse_batch self windows s_mat ts_idxs ?draw, advance (batch_size self) g) \<and>
            set ?draw \<subseteq> set elig"
    using windows_batch_eq[OF c e, of g] sub by simp
  have nsh: "\<not> shuffle self \<longrightarrow>
            windows_batch self index g = (parse_batch self windows s_mat ts_idxs elig, g)"
    using windows_batch_eq[OF c e, of g] by simp
  have every: "\<forall>b g'. windows_batch self index g = (Inr b, g') \<longrightarrow>
            (\<exists>positions.
               selects self windows s_mat ts_idxs positions b \<and>
               has_size b (length positions) \<and>
               (if shuffle self
                then positions = ?draw \<and>
                     length positions = batch_size self \<and> g' = advance (batch_size self) g
                else positions = elig \<and> g' = g))"
  proof (intro allI impI)
    fix b g' assume w: "windows_batch self index g = (Inr b, g')"
    let ?pos = "if shuffle self then ?draw else elig"
    from w have pb: "parse_batch self windows s_mat ts_idxs ?pos = Inr b"
      and g': "g' = (if shuffle self then advance (batch_size self) g else g)"
      unfolding windows_batch_eq[OF c e] by (simp_all split: if_splits)
    note sel = parse_batch_Inr(1)[OF pb]
    note hs = selects_has_size[OF sel]
    have "if shuffle self
          then ?pos = ?draw \<and> length ?pos = batch_size self \<and> g' = advance (batch_size self) g
          else ?pos = elig \<and> g' = g"
      using g' by simp
    with sel hs show "\<exists>positions.
               selects self windows s_mat ts_idxs positions b \<and>
               has_size b (length positions) \<and>
               (if shuffle self
                then positions = ?draw \<and>
                     length positions = batch_size self \<and> g' = advance (batch_size self) g
                else positions = elig \<and> g' = g)"
      by blast
  qed
  have total: "columns_present self \<and> length index dvd length windows \<longrightarrow>
            (\<exists>b. windows_batch self index g =
                    (Inr b, if shuffle self then advance (batch_size self) g else g) \<and>
                  has_size b (if shuffle self then batch_size self else length elig))"
    using windows_batch_returns[OF c e] by blast
  have unif: "\<forall>e \<in> set elig. \<forall>m.
            card {r. r < length elig * m \<and> elig ! (r mod length elig) = e} = m"
    using uniform_draw[OF p(2)] by blast
  have onto: "\<forall>draws. set draws \<subseteq> set elig \<longrightarrow>
            (\<exists>g0. fst (choice_replace elig (length draws) g0) = Inr draws) \<and>
            (\<exists>!r. length r = length draws \<and> set r \<subseteq> {..<length elig} \<and>
                   map (\<lambda>j. elig ! j) r = draws)"
  proof (intro allI impI conjI)
    fix draws assume d: "set draws \<subseteq> set elig"
    show "\<exists>g0. fst (choice_replace elig (length draws) g0) = Inr draws"
      by (rule choice_replace_onto[OF d])
    show "\<exists>!r. length r = length draws \<and> set r \<subseteq> {..<length elig} \<and>
                   map (\<lambda>j. elig ! j) r = draws"
      by (rule index_vector_unique[OF p(2) d])
  qed
  show ?thesis
    apply (intro conjI)
    apply (rule p(1))
    apply (rule p(2))
    apply (rule sh)
    apply (rule nsh)
    apply (rule every)
    apply (rule total)
    apply (rule unif)
    apply (rule onto)
    done
qed

theorem windows_batch_size_witness:
  "create_windows_tensor ex_loader_big (Some [1]) =
     Inr (ex_windows_1, [[20], [20], [20], [20]], [1, 1, 1, 1]) \<and>
   get_sampleable_windows_idxs ex_loader_big ex_windows_1 = Inr [1, 2] \<and>
   shuffle ex_loader_big \<and> length [1, 2 :: nat] < batch_size ex_loader_big \<and>
   windows_batch ex_loader_big [1] (\<lambda>i. i) = (Inr ex_batch_big, advance 5 (\<lambda>i. i)) \<and>
   has_size ex_batch_big (batch_size ex_loader_big) \<and>
   columns_present ex_loader_big \<and> length [1 :: int] dvd length ex_windows_1 \<and>
   create_windows_tensor (ex_loader False False) (Some [0]) =
     Inr (ex_windows_0, [[10], [10], [10], [10]], [0, 0, 0, 0]) \<and>
   get_sampleable_windows_idxs (ex_loader False False) ex_windows_0 = Inr [0, 1, 2] \<and>
   windows_batch (ex_loader False False) [0] (\<lambda>i. i) = (Inr ex_batch_0, (\<lambda>i. i)) \<and>
   has_size ex_batch_0 3 \<and> batch_size (ex_loader False False) = 2"
proof -
  note c = ex_create_windows_big and e = ex_sampleable_big
  note t = windows_batch_size[OF c e, of "\<lambda>i. i"]
  note t_shuffle = t[THEN conjunct2, THEN conjunct2, THEN conjunct1]
  note t_total = t[THEN conjunct2, THEN conjunct2, THEN conjunct2, THEN conjunct2,
                   THEN conjunct2, THEN conjunct1]
  have sh: "shuffle ex_loader_big" by (simp add: ex_loader_big_simps)
  from t_shuffle sh have "windows_batch ex_loader_big [1] (\<lambda>i. i) =
      (parse_batch ex_loader_big ex_windows_1 [[20], [20], [20], [20]] [1, 1, 1, 1]
         (map (\<lambda>i. [1, 2 :: nat] ! (i mod length [1, 2 :: nat]))
            [0..<batch_size ex_loader_big]),
       advance (batch_size ex_loader_big) (\<lambda>i. i))"
    by (simp only: simp_thms)
  then have w: "windows_batch ex_loader_big [1] (\<lambda>i. i) = (Inr ex_batch_big, advance 5 (\<lambda>i. i))"
    unfolding ex_loader_big_simps ex_positions_big ex_parse_batch_big .
  have cp: "columns_present ex_loader_big" by (rule ex_columns_big)
  have dv: "length [1 :: int] dvd length ex_windows_1" by (simp add: ex_windows_1_def)
  from t_total cp dv have "\<exists>b. windows_batch ex_loader_big [1] (\<lambda>i. i) =
           (Inr b, if shuffle ex_loader_big then advance (batch_size ex_loader_big) (\<lambda>i. i)
                   else (\<lambda>i. i)) \<and>
         has_size b (if shuffle ex_loader_big then batch_size ex_loader_big else length [1, 2 :: nat])"
    by (simp only: simp_thms)
  then obtain b where
    "windows_batch ex_loader_big [1] (\<lambda>i. i) =
       (Inr b, if shuffle ex_loader_big then advance (batch_size ex_loader_big) (\<lambda>i. i)
               else (\<lambda>i. i))"
    and "has_size b (if shuffle ex_loader_big then batch_size ex_loader_big else length [1, 2 :: nat])"
    by (elim exE conjE)
  then have hs: "has_size ex_batch_big (batch_size ex_loader_big)"
    unfolding w using sh by simp
  note c0 = ex_create_windows_0[of False False] and e0 = ex_sampleable_0[of False]
  note t0 = windows_batch_size[OF c0 e0, of "\<lambda>i. i"]
  note t0_no_shuffle = t0[THEN conjunct2, THEN conjunct2, THEN conjunct2, THEN conjunct1]
  note t0_every = t0[THEN conjunct2, THEN conjunct2, THEN conjunct2, THEN conjunct2,
                     THEN conjunct1]
  have nsh: "\<not> shuffle (ex_loader False False)" by (simp add: ex_loader_simps)
  from t0_no_shuffle nsh have "windows_batch (ex_loader False False) [0] (\<lambda>i. i) =
      (parse_batch (ex_loader False False) ex_windows_0 [[10], [10], [10], [10]] [0, 0, 0, 0]
         [0, 1, 2], \<lambda>i. i)"
    by (simp only: simp_thms)
  then have w0: "windows_batch (ex_loader False False) [0] (\<lambda>i. i) = (Inr ex_batch_0, \<lambda>i. i)"
    unfolding ex_parse_batch_0 .
  from t0_every[rule_format, OF w0] obtain positions :: "nat list" where
    h: "has_size ex_batch_0 (length positions)"
    and i: "if shuffle (ex_loader False False)
         then positions = map (\<lambda>i. [0, 1, 2 :: nat] ! (i mod length [0, 1, 2 :: nat]))
                            [0..<batch_size (ex_loader False False)] \<and>
              length positions = batch_size (ex_loader False False) \<and>
              (\<lambda>i. i) = advance (batch_size (ex_loader False False)) (\<lambda>i::nat. i)
         else positions = [0, 1, 2] \<and> (\<lambda>i. i) = (\<lambda>i::nat. i)"
    by (elim exE conjE)
  from i nsh have "positions = [0, 1, 2]" by (simp only: if_False simp_thms)
  with h have hs0: "has_size ex_batch_0 3" by (simp add: numeral_3_eq_3)
  have lt: "length [1, 2 :: nat] < batch_size ex_loader_big" by (simp add: ex_loader_big_simps)
  have bs: "batch_size (ex_loader False False) = 2" by (simp add: ex_loader_simps)
  show ?thesis
    apply (intro conjI)
    apply (rule c)
    apply (rule e)
    apply (rule sh)
    apply (rule lt)
    apply (rule w)
    apply (rule hs)
    apply (rule cp)
    apply (rule dv)
    apply (rule c0)
    apply (rule e0)
    apply (rule w0)
    apply (rule hs0)
    apply (rule bs)
    done
qed


section \<open>Layout of the windows\<close>

text \<open>
  Claim C4, amended.  Let the store hand out, for a non-empty index array whose entries
  are valid rows of the static matrix, a tensor of one series per index entry, each of
  \<open>n_channels \<ge> 1\<close> channels of one length, and let \<open>L\<close> be that length after padding, with
  \<open>1 \<le> windows_size \<le> L\<close> and a stride of at least one.  With
  \<open>k = floor((L - windows_size) / idx_to_sample_freq) + 1\<close> the windowing engine returns
  exactly \<open>n_series_sel * k\<close> windows of shape \<open>(n_channels, windows_size)\<close>; window
  \<open>i * k + j\<close> is the window of series \<open>i\<close> at start offset \<open>j * idx_to_sample_freq\<close>
  (series-major, time-minor); and the static rows and the series indices have the same
  length, entry \<open>i * k + j\<close> being the static row and the index of series \<open>i\<close>.
\<close>

theorem create_windows_tensor_layout:
  fixes self :: TimeSeriesLoader and index :: "int list" and l0 :: nat
  defines "ds \<equiv> ts_dataset self"
  defines "selected \<equiv> get_filtered_ts_tensor ds (output_size self)
                          (window_sampling_limit self) (Some index)"
  defines "k \<equiv> windows_per_series (fst (padding self) + l0 + snd (padding self))
                   (windows_size self) (idx_to_sample_freq self)"
  assumes shape: "rectangular (length index) (n_channels ds) l0 selected"
    and nonempty: "index \<noteq> []"
    and valid: "list_all (in_bounds (length (s_matrix ds))) index"
    and channels: "0 < n_channels ds"
    and size: "0 < windows_size self"
    and stride: "0 < idx_to_sample_freq self"
    and fit: "windows_size self \<le> fst (padding self) + l0 + snd (padding self)"
  shows "\<exists>windows s_mat ts_idxs.
           create_windows_tensor self (Some index) = Inr (windows, s_mat, ts_idxs) \<and>
           rectangular (length index * k) (n_channels ds) (windows_size self) windows \<and>
           length s_mat = length index * k \<and> length ts_idxs = length index * k \<and>
           (\<forall>i < length index. \<forall>j < k.
              windows ! (i * k + j) =
                window_at (windows_size self) (idx_to_sample_freq self) (padding self)
                  (selected ! i) j \<and>
              s_mat ! (i * k + j)
                = s_matrix ds ! wrap_index (length (s_matrix ds)) (index ! i) \<and>
              ts_idxs ! (i * k + j) = index ! i)"
proof -
  let ?n = "length index"
  let ?w = "windows_size self" and ?st = "idx_to_sample_freq self" and ?p = "padding self"
  let ?blocks = "concat (map (\<lambda>s. map (window_at ?w ?st ?p s) [0..<k]) selected)"
  note wb = windowing_blocks[OF shape channels size stride fit, folded k_def]
  from wb(1) obtain u where
    u: "unfold_last ?w ?st (constant_pad ?p selected) = Inr u"
    and r: "reshape_windows (n_channels ds) ?w (permute_0213 u) = Inr ?blocks"
    by blast
  let ?rows = "map (\<lambda>i. s_matrix ds ! wrap_index (length (s_matrix ds)) i) index"
  have t: "take_rows (s_matrix ds) index = Inr ?rows"
    using valid by (simp add: take_rows_def)
  have n0: "?n \<noteq> 0" using nonempty by simp
  have q: "length ?blocks div ?n = k" using wb(2) n0 by simp
  have cw: "create_windows_tensor self (Some index)
              = Inr (?blocks, repeat_rows ?rows k, repeat_rows index k)"
    unfolding create_windows_tensor_def Let_def ds_def[symmetric] selected_def[symmetric]
      u sum.case r option.case t q
    using n0 by simp
  have "\<forall>i < ?n. \<forall>j < k.
              ?blocks ! (i * k + j) = window_at ?w ?st ?p (selected ! i) j \<and>
              repeat_rows ?rows k ! (i * k + j)
                = s_matrix ds ! wrap_index (length (s_matrix ds)) (index ! i) \<and>
              repeat_rows index k ! (i * k + j) = index ! i"
    using wb(4) by (simp add: repeat_rows_nth)
  with cw wb(3) show ?thesis
    by (simp add: repeat_rows_length)
qed

theorem create_windows_tensor_layout_witness:
  "rectangular (length [0, 1 :: int]) (n_channels ex_store) 3
     (get_filtered_ts_tensor ex_store 1 3 (Some [0, 1])) \<and>
   windows_per_series 5 2 1 = 4 \<and>
   create_windows_tensor (ex_loader False False) (Some [0, 1]) =
     Inr (ex_windows, [[10], [10], [10], [10], [20], [20], [20], [20]],
          [0, 0, 0, 0, 1, 1, 1, 1]) \<and>
   rectangular 8 3 2 ex_windows \<and>
   ex_windows ! 6 = window_at 2 1 (1, 1) (ex_tensor ! 1) 2"
proof -
  let ?L = "ex_loader False False"
  have shape: "rectangular (length [0, 1 :: int]) (n_channels (ts_dataset ?L)) 3
     (get_filtered_ts_tensor (ts_dataset ?L) (output_size ?L) (window_sampling_limit ?L)
        (Some [0, 1]))"
    by (simp add: ex_loader_simps ex_store_simps rectangular_def ex_tensor_def)
  have k: "windows_per_series 5 2 1 = 4"
    by (simp add: windows_per_series_def)
  have k': "windows_per_series (fst (padding ?L) + 3 + snd (padding ?L)) (windows_size ?L)
              (idx_to_sample_freq ?L) = 4"
    by (simp add: windows_per_series_def ex_loader_simps)
  have valid: "list_all (in_bounds (length (s_matrix (ts_dataset ?L)))) [0, 1]"
    by (simp add: in_bounds_def ex_loader_simps ex_store_simps)
  from create_windows_tensor_layout[where self = ?L and index = "[0, 1]" and ?l0.0 = 3,
         OF shape _ valid]
  obtain windows s_mat ts_idxs where
    c: "create_windows_tensor ?L (Some [0, 1]) = Inr (windows, s_mat, ts_idxs)"
    and r: "rectangular (length [0, 1 :: int] * 4) (n_channels (ts_dataset ?L)) (windows_size ?L) windows"
    and n: "\<forall>i < length [0, 1 :: int]. \<forall>j < 4.
              windows ! (i * 4 + j) =
                window_at (windows_size ?L) (idx_to_sample_freq ?L) (padding ?L)
                  (get_filtered_ts_tensor (ts_dataset ?L) (output_size ?L)
                     (window_sampling_limit ?L) (Some [0, 1]) ! i) j"
    unfolding k' by (auto simp: ex_loader_simps ex_store_simps)
  from c have w: "windows = ex_windows" by (simp add: ex_create_windows)
  from r have r': "rectangular 8 3 2 ex_windows"
    unfolding w by (simp add: ex_loader_simps ex_store_simps)
  from n[rule_format, of 1 2] have "ex_windows ! 6 = window_at 2 1 (1, 1) (ex_tensor ! 1) 2"
    unfolding w by (simp add: ex_loader_simps ex_store_simps ex_tensor_def)
  with shape k r' ex_create_windows[of False False] show ?thesis
    by (simp add: ex_loader_simps)
qed

text \<open>
  The claim fails as it stands for a selection of no series: the store's (empty) tensor has
  the shape the claim asks for and the claim promises \<open>0 * k = 0\<close> windows, but
  \<^verbatim>\<open>len(windows) / n_ts\<close> divides by \<open>n_ts = 0\<close>.
\<close>

theorem empty_selection_counterexample:
  "rectangular (length ([] :: int list)) (n_channels ex_store) 3
     (get_filtered_ts_tensor ex_store 1 3 (Some [])) \<and>
   create_windows_tensor (ex_loader False False) (Some []) = Inl ZeroDivisionError"
  by (simp add: rectangular_def ex_eval)

section \<open>One pass of the iterator\<close>






section \<open>Configuration errors\<close>

text \<open>
  Claim C6, amended.  Provided the effective \<open>n_series_per_batch\<close> is not zero and the
  store names a \<open>sample_mask\<close> channel inside its tensor, construction raises a
  ConfigurationError exactly for the invalid static configurations (unknown model family,
  a supplied \<open>len_sample_chunks\<close> below \<open>input_size + output_size\<close>, a \<open>batch_size\<close> that is
  not a multiple of \<open>n_series_per_batch\<close>, an \<open>n_series_per_batch\<close> above the series
  count), and it returns a loader exactly for the others.
\<close>

theorem init_raises_iff_invalid_config:
  assumes "effective_n_series_per_batch ds bsz nspb \<noteq> 0"
    and "list_index (TimeSeriesDataset.t_cols ds) ''sample_mask'' = Inr c"
    and "c < n_channels ds"
  shows "((\<exists>e. init ds mdl wsl isz osz freq bsz ci shf lsc nspb vrb = Inl e \<and> ConfigurationError e)
          \<longleftrightarrow> invalid_config ds mdl isz osz bsz lsc nspb) \<and>
         ((\<exists>self. init ds mdl wsl isz osz freq bsz ci shf lsc nspb vrb = Inr self)
          \<longleftrightarrow> \<not> invalid_config ds mdl isz osz bsz lsc nspb)"
proof (cases "invalid_config ds mdl isz osz bsz lsc nspb")
  case True
  from init_invalid[OF assms(1) True, of wsl freq ci shf vrb]
  show ?thesis using True by auto
next
  case False
  from init_valid[OF assms False, of wsl freq ci shf vrb]
  show ?thesis using False by auto
qed
theorem init_raises_iff_invalid_config_witness:
  "effective_n_series_per_batch ex_store 32 (Some 5) \<noteq> 0 \<and>
   list_index (TimeSeriesDataset.t_cols ex_store) ''sample_mask'' = Inr 2 \<and>
   2 < n_channels ex_store \<and>
   invalid_config ex_store ''esrnn'' 10 5 32 (Some 10) (Some 5) \<and>
   (\<exists>e. init ex_store ''esrnn'' 3 10 5 1 32 False True (Some 10) (Some 5) False = Inl e
        \<and> ConfigurationError e) \<and>
   \<not> invalid_config ex_store ''nbeats'' 1 1 2 None (Some 1) \<and>
   (\<exists>self. init ex_store ''nbeats'' 3 1 1 1 2 False True None (Some 1) False = Inr self)"
proof -
  have a: "effective_n_series_per_batch ex_store 32 (Some 5) \<noteq> 0"
    and a': "effective_n_series_per_batch ex_store 2 (Some 1) \<noteq> 0"
    and b: "list_index (TimeSeriesDataset.t_cols ex_store) ''sample_mask'' = Inr 2"
    and c: "2 < n_channels ex_store"
    by (simp_all add: effective_n_series_per_batch_def ex_store_simps)
  have d: "invalid_config ex_store ''esrnn'' 10 5 32 (Some 10) (Some 5)"
    and d': "\<not> invalid_config ex_store ''nbeats'' 1 1 2 None (Some 1)"
    by (simp_all add: invalid_config_def effective_n_series_per_batch_def ex_store_simps)
  from init_raises_iff_invalid_config[OF a b c, of "''esrnn''" 3 10 5 1 False True "Some 10" False]
       init_raises_iff_invalid_config[OF a' b c, of "''nbeats''" 3 1 1 1 False True None False]
       a b c d d'
  show ?thesis by blast
qed

text \<open>
  The claim fails as it stands: with \<open>batch_size = 0\<close> and no \<open>n_series_per_batch\<close> the
  effective \<open>n_series_per_batch\<close> is \<open>min 0 3 = 0\<close>, none of the four conditions holds
  (zero is a multiple of zero and does not exceed the series count), and yet the
  constructor stops in \<^verbatim>\<open>batch_size % n_series_per_batch\<close> with a ZeroDivisionError, which
  is neither of its deliberate errors nor a loader.
\<close>

theorem init_zero_series_per_batch_counterexample:
  "\<not> invalid_config ex_store ''nbeats'' 1 1 0 None None \<and>
   init ex_store ''nbeats'' 3 1 1 1 0 False True None None False = Inl ZeroDivisionError \<and>
   \<not> ConfigurationError ZeroDivisionError"
  by (simp add: invalid_config_def effective_n_series_per_batch_def ex_store_simps
        init_unfold ConfigurationError_def)

section \<open>The data error\<close>

text \<open>
  Claim C7.  A batch-production call fails with the assertion of
  \<^verbatim>\<open>_get_sampleable_windows_idxs\<close> (the specification's DataError) exactly when the
  windows of the requested subset were built and none of them is eligible.  The random
  source has not been read by then; the call leaves the interpreter state as it was, so
  any later call behaves as if the failed one had not happened; and no call ever changes
  the loader.
\<close>

theorem data_error_iff_no_eligible_window:
  "(fst (call_getitem index st) = Inl AssertionError \<longleftrightarrow>
      (\<exists>windows s_mat ts_idxs.
         create_windows_tensor (loader st) (Some index) = Inr (windows, s_mat, ts_idxs) \<and>
         sampling_idx (loader st) windows = Inr [])) \<and>
   (fst (call_getitem index st) = Inl AssertionError \<longrightarrow>
      snd (call_getitem index st) = st \<and>
      (\<forall>index'. call_getitem index' (snd (call_getitem index st)) = call_getitem index' st)) \<and>
   loader (snd (call_getitem index st)) = loader st"
proof -
  have "snd (call_getitem index st) = st" if "fst (call_getitem index st) = Inl AssertionError"
    using windows_batch_AssertionError_rng[of "loader st" index "np_random st"] that
    by (simp add: call_getitem_fst call_getitem_snd)
  then show ?thesis
    by (simp add: call_getitem_fst windows_batch_AssertionError call_getitem_loader)
qed

theorem data_error_witness:
  "fst (call_getitem [2] \<lparr>loader = ex_loader False False, np_random = (\<lambda>i. i)\<rparr>)
     = Inl AssertionError \<and>
   snd (call_getitem [2] \<lparr>loader = ex_loader False False, np_random = (\<lambda>i. i)\<rparr>)
     = \<lparr>loader = ex_loader False False, np_random = (\<lambda>i. i)\<rparr> \<and>
   fst (call_getitem [0]
         (snd (call_getitem [2] \<lparr>loader = ex_loader False False, np_random = (\<lambda>i. i)\<rparr>)))
     = Inr ex_batch_0"
proof -
  let ?st = "\<lparr>loader = ex_loader False False, np_random = (\<lambda>i. i)\<rparr>"
  have e: "\<exists>windows s_mat ts_idxs.
         create_windows_tensor (loader ?st) (Some [2]) = Inr (windows, s_mat, ts_idxs) \<and>
         sampling_idx (loader ?st) windows = Inr []"
    using ex_create_windows_2[of False False] ex_sampling_idx_2[of False] by simp
  have b: "fst (call_getitem [0] ?st) = Inr ex_batch_0"
    by (simp add: call_getitem_def getitem_def ex_windows_batch_0)
  from data_error_iff_no_eligible_window[of "[2]" ?st] e
  have f: "fst (call_getitem [2] ?st) = Inl AssertionError"
    and s: "snd (call_getitem [2] ?st) = ?st"
    by blast+
  show ?thesis using f s b by simp
qed

section \<open>Determinism of the indexing operation\<close>

text \<open>
  Claim C8.  Calling the indexing operation, putting the random source back into the state
  it had before (the same seed) and calling it again with the same series subset gives the
  same result: the first call has not changed the loader.  Without \<open>shuffle\<close> the result
  does not depend on the random source at all and the call leaves it untouched.  A batch
  is the record of \<open>S\<close>, \<open>Y\<close>, \<open>X\<close>, \<open>available_mask\<close>, \<open>sample_mask\<close> and \<open>idxs\<close>, so equal
  results are equal in all six.
\<close>

theorem getitem_deterministic:
  "fst (call_getitem index ((snd (call_getitem index st))\<lparr>np_random := np_random st\<rparr>))
     = fst (call_getitem index st) \<and>
   (\<not> shuffle (loader st) \<longrightarrow>
      (\<forall>g. call_getitem index (st\<lparr>np_random := g\<rparr>)
             = (fst (call_getitem index st), st\<lparr>np_random := g\<rparr>)))"
proof -
  have "call_getitem index (st\<lparr>np_random := g\<rparr>)
             = (fst (call_getitem index st), st\<lparr>np_random := g\<rparr>)"
    if "\<not> shuffle (loader st)" for g
    using windows_batch_no_shuffle[OF that, of index g "np_random st"]
    by (simp add: call_getitem_def getitem_def split: prod.splits)
  then show ?thesis
    by (simp add: call_getitem_fst call_getitem_snd)
qed

theorem getitem_deterministic_witness:
  "\<not> shuffle (loader \<lparr>loader = ex_loader False False, np_random = (\<lambda>i. i)\<rparr>) \<and>
   call_getitem [0] \<lparr>loader = ex_loader False False, np_random = (\<lambda>i. 7)\<rparr>
     = (Inr ex_batch_0, \<lparr>loader = ex_loader False False, np_random = (\<lambda>i. 7)\<rparr>) \<and>
   fst (call_getitem [0] \<lparr>loader = ex_loader False False, np_random = (\<lambda>i. i)\<rparr>)
     = Inr ex_batch_0"
proof -
  let ?st = "\<lparr>loader = ex_loader False False, np_random = (\<lambda>i. i)\<rparr>"
  have a: "\<not> shuffle (loader ?st)" by (simp add: ex_loader_simps)
  have b: "fst (call_getitem [0] ?st) = Inr ex_batch_0"
    by (simp add: call_getitem_def getitem_def ex_windows_batch_0)
  from getitem_deterministic[of "[0]" ?st] a
  have "call_getitem [0] (?st\<lparr>np_random := (\<lambda>i. 7)\<rparr>)
             = (fst (call_getitem [0] ?st), ?st\<lparr>np_random := (\<lambda>i. 7)\<rparr>)"
    by blast
  with a b show ?thesis by simp
qed

section \<open>The default index\<close>

text \<open>
  Claim C9.  \<^verbatim>\<open>_create_windows_tensor\<close> called with \<open>index = None\<close> never returns a window
  tensor: it always ends in an exception, and whenever the windowing itself goes through
  (unfold and reshape succeed, the store has a series) that exception is the
  AttributeError of \<^verbatim>\<open>index.repeat\<close> on \<open>None\<close>.  So every successful batch needs a
  concrete index array.
\<close>

theorem create_windows_tensor_None_never_returns:
  "\<exists>e. create_windows_tensor self None = Inl e \<and>
       (e = AttributeError \<longleftrightarrow>
          (\<exists>u windows.
             unfold_last (windows_size self) (idx_to_sample_freq self)
               (constant_pad (padding self)
                  (get_filtered_ts_tensor (ts_dataset self) (output_size self)
                     (window_sampling_limit self) None)) = Inr u \<and>
             reshape_windows (n_channels (ts_dataset self)) (windows_size self)
               (permute_0213 u) = Inr windows \<and>
             n_series (ts_dataset self) \<noteq> 0))"
  by (auto simp: create_windows_tensor_def Let_def unfold_last_def reshape_windows_def
           split: sum.splits if_splits)

theorem create_windows_tensor_None_witness:
  "create_windows_tensor (ex_loader False False) None = Inl AttributeError \<and>
   n_series (ts_dataset (ex_loader False False)) = 3"
proof -
  from create_windows_tensor_None_never_returns[of "ex_loader False False"]
  obtain e where e: "create_windows_tensor (ex_loader False False) None = Inl e" by blast
  moreover have "create_windows_tensor (ex_loader False False) None = Inl AttributeError"
    by (rule ex_create_windows_None)
  ultimately show ?thesis by (simp add: ex_loader_simps ex_store_simps)
qed

section \<open>A loader without sampleable series\<close>

text \<open>
  Claim C10.  Construction of a valid configuration succeeds whatever the masks are, and
  when the sampleable-series set it computed is empty, \<open>n_batches\<close> is \<open>0\<close> and a full
  iteration pass (shuffled or not) hands out no batch, ends without an exception and
  leaves the random source where it was: the loop body is never reached.
\<close>

theorem empty_sampleable_set_constructs_and_yields_nothing:
  assumes "effective_n_series_per_batch ds bsz nspb \<noteq> 0"
    and "list_index (TimeSeriesDataset.t_cols ds) ''sample_mask'' = Inr c"
    and "c < n_channels ds"
    and "\<not> invalid_config ds mdl isz osz bsz lsc nspb"
  shows "\<exists>self. init ds mdl wsl isz osz freq bsz ci shf lsc nspb vrb = Inr self \<and>
           (sampleable_ts_idxs self = [] \<longrightarrow>
              n_batches self = 0 \<and> (\<forall>g. iter self g = ([], None, g)))"
proof -
  from init_valid[OF assms] obtain self where
    s: "init ds mdl wsl isz osz freq bsz ci shf lsc nspb vrb = Inr self" by blast
  from empty_sampleable_set_no_batches[OF s] s show ?thesis by blast
qed

theorem empty_sampleable_set_witness:
  "effective_n_series_per_batch ex_store 2 (Some 1) \<noteq> 0 \<and>
   list_index (TimeSeriesDataset.t_cols ex_store) ''sample_mask'' = Inr 2 \<and>
   2 < n_channels ex_store \<and>
   \<not> invalid_config ex_store ''nbeats'' 1 3 2 None (Some 1) \<and>
   (\<exists>self. init ex_store ''nbeats'' 3 1 3 1 2 False True None (Some 1) False = Inr self \<and>
      sampleable_ts_idxs self = [] \<and> n_batches self = 0 \<and>
      iter self (\<lambda>i. i) = ([], None, \<lambda>i. i))"
proof -
  have a: "effective_n_series_per_batch ex_store 2 (Some 1) \<noteq> 0"
    and b: "list_index (TimeSeriesDataset.t_cols ex_store) ''sample_mask'' = Inr 2"
    and c: "2 < n_channels ex_store"
    and d: "\<not> invalid_config ex_store ''nbeats'' 1 3 2 None (Some 1)"
    by (simp_all add: invalid_config_def effective_n_series_per_batch_def ex_store_simps)
  from empty_sampleable_set_constructs_and_yields_nothing
         [OF a b c d, of 3 1 False True False]
  obtain self where
    s: "init ex_store ''nbeats'' 3 1 3 1 2 False True None (Some 1) False = Inr self"
    and e: "sampleable_ts_idxs self = [] \<longrightarrow>
              n_batches self = 0 \<and> (\<forall>g. iter self g = ([], None, g))"
    by blast
  from init_Inr(6)[OF s] b have "sampleable_ts_idxs self = []"
    by (simp add: ex_store_simps ex_tensor_def argwhere_Cons argwhere_Nil)
  with e s a b c d show ?thesis by blast
qed

end
